theory Spec2Isabelle
  imports Main "HOL-Library.Sublist" "HOL-Library.Multiset"
begin

text \<open>
  The search over the useful links of the campus guide (\<^verbatim>\<open>links.js\<close>: \<^verbatim>\<open>getResults\<close> and
  the traversal \<^verbatim>\<open>_getResults\<close>) and the social media helpers of \<^verbatim>\<open>DisplayUtils.js\<close>.
\<close>

section \<open>Strings\<close>

text \<open>
  Strings are lists of characters. The case mappings \<^verbatim>\<open>String.prototype.toUpperCase\<close>
  and \<^verbatim>\<open>String.prototype.toLowerCase\<close> belong to the JavaScript runtime and follow the
  Unicode tables (accented letters have an upper case, and the upper case of a string may
  be longer than the string). They are parameters here: every definition that calls one of them takes the
  record \<open>js\<close> of the two functions, and every theorem holds whatever they are.
\<close>

record StringPrototype =
  toUpperCase :: "string \<Rightarrow> string"
  toLowerCase :: "string \<Rightarrow> string"

text \<open>
  \<^verbatim>\<open>s.indexOf(t)\<close>: the position of the first occurrence of \<open>t\<close> in \<open>s\<close>, or \<open>-1\<close>
  when there is none. The empty string occurs at position \<open>0\<close> of every string.
\<close>

fun indexOf :: "string \<Rightarrow> string \<Rightarrow> int" where
  "indexOf [] t = (if t = [] then 0 else -1)"
| "indexOf (c # s) t =
     (if prefix t (c # s) then 0
      else (let r = indexOf s t in if r < 0 then -1 else r + 1))"

section \<open>DisplayUtils.js\<close>

definition getSocialMediaIconName ::
  "StringPrototype \<Rightarrow> string \<Rightarrow> string" where
  "getSocialMediaIconName js socialMedia =
     (let k = toLowerCase js socialMedia in
      if k = ''linkedin'' then ''social-linkedin''
      else if k = ''twitter'' then ''social-twitter''
      else if k = ''facebook'' then ''social-facebook''
      else if k = ''instagram'' then ''social-instagram-outline''
      else if k = ''youtube'' then ''social-youtube''
      else if k = ''tumblr'' then ''social-tumblr''
      else ''android-open'')"

definition getSocialMediaIconColor ::
  "StringPrototype \<Rightarrow> string \<Rightarrow> string" where
  "getSocialMediaIconColor js socialMedia =
     (let k = toLowerCase js socialMedia in
      if k = ''linkedin'' then ''#0077B5''
      else if k = ''twitter'' then ''#55ACEE''
      else if k = ''facebook'' then ''#3D509F''
      else if k = ''instagram'' then ''#241F20''
      else if k = ''youtube'' then ''#CD201F''
      else if k = ''tumblr'' then ''#35465C''
      else ''#000000'')"

section \<open>links.js: data\<close>

text \<open>
  A language is its code (\<^verbatim>\<open>'en'\<close>, \<^verbatim>\<open>'fr'\<close>).
\<close>

type_synonym language = string

text \<open>
  A link section as the traversal reads it. The type \<open>'o\<close> stands for the fields of an
  object that only \<^verbatim>\<open>TranslationUtils\<close> looks at (the names of a section or of a link,
  and for a link everything else it holds); \<open>'i\<close> is the type of a section's icon.
  \<^verbatim>\<open>links\<close>, \<^verbatim>\<open>social\<close> and \<^verbatim>\<open>categories\<close> may be absent (\<open>None\<close>).
  \<^verbatim>\<open>TranslationUtils\<close> is given an object to find its name: it sees \<open>section_fields\<close> of
  a section, that is the name fields, and not the \<^verbatim>\<open>id\<close>.

  The traversal assigns to the \<^verbatim>\<open>id\<close> field of section objects that are reachable from
  two places (the parent's \<^verbatim>\<open>categories\<close> array and the work list), so \<^verbatim>\<open>id\<close> is kept
  in a store: every section object has an address \<open>section_ref\<close>, and the store
  \<open>ids\<close> maps the address of an object to the current value of its \<^verbatim>\<open>id\<close> field.
\<close>

datatype ('o, 'i) LinkSection =
  Section (section_ref: nat) (section_fields: 'o) (section_icon: 'i)
    (section_links: "'o list option") (section_social: "'o list option")
    (section_categories: "('o, 'i) LinkSection list option")

type_synonym id_store = "nat \<Rightarrow> string"

text \<open>The collaborator \<^verbatim>\<open>TranslationUtils\<close>, whose code is not part of the search.\<close>

record Translations =
  external_links :: string
  useful_links :: string
  see_related_links :: string

record 'o TranslationUtils =
  getTranslations :: "language \<Rightarrow> Translations"
  getTranslatedName :: "language \<Rightarrow> 'o \<Rightarrow> string option"
  getEnglishName :: "'o \<Rightarrow> string option"

text \<open>A search result. \<open>data\<close> is a link object or a section id.\<close>

datatype 'o result_data = LinkData 'o | IdData string

datatype 'i result_icon = IconObject (icon_name: string) (icon_class: string) | SectionIcon 'i

record ('o, 'i) SearchResult =
  description :: string
  data :: "'o result_data"
  icon :: "'i result_icon"
  matchedTerms :: "string list"
  title :: string

section \<open>links.js: the traversal\<close>

text \<open>\<^verbatim>\<open>x || ''\<close> on a value that is a string, null or undefined.\<close>

definition orEmpty :: "string option \<Rightarrow> string" where
  "orEmpty x = (case x of None \<Rightarrow> [] | Some s \<Rightarrow> s)"

definition pushLink ::
  "StringPrototype \<Rightarrow> string \<Rightarrow> string \<Rightarrow> string \<Rightarrow> 'o \<Rightarrow> bool \<Rightarrow> ('o, 'i) SearchResult list
   \<Rightarrow> ('o, 'i) SearchResult list" where
  "pushLink js sectionName linkName iconName link matchedSectionName links =
     links @ [\<lparr>description = sectionName,
               data = LinkData link,
               icon = IconObject iconName ''ionicon'',
               matchedTerms = (if matchedSectionName
                               then [toUpperCase js sectionName, toUpperCase js linkName]
                               else [toUpperCase js linkName]),
               title = linkName\<rparr>]"

text \<open>The local variables of \<^verbatim>\<open>_getResults\<close>, and the store of the \<^verbatim>\<open>id\<close> fields.\<close>

record ('o, 'i) search_state =
  sectionsToSearch :: "('o, 'i) LinkSection list"
  links :: "('o, 'i) SearchResult list"
  categories :: "('o, 'i) SearchResult list"
  ids :: id_store

text \<open>An array that may be absent, as a \<^verbatim>\<open>for\<close> loop under \<^verbatim>\<open>if (array)\<close> sees it.\<close>

definition entries :: "'a list option \<Rightarrow> 'a list" where
  "entries a = (case a of None \<Rightarrow> [] | Some xs \<Rightarrow> xs)"

text \<open>The four loops over \<^verbatim>\<open>section.links\<close> and \<^verbatim>\<open>section.social\<close>.\<close>

definition pushAllLinks ::
  "StringPrototype \<Rightarrow> 'o TranslationUtils \<Rightarrow> language \<Rightarrow> string \<Rightarrow> 'o list
   \<Rightarrow> ('o, 'i) SearchResult list \<Rightarrow> ('o, 'i) SearchResult list" where
  "pushAllLinks js tu language sectionName ls acc =
     foldl (\<lambda>acc link.
        let linkName = orEmpty (getTranslatedName tu language link)
        in pushLink js sectionName linkName ''md-open'' link True acc) acc ls"

definition pushAllSocial ::
  "StringPrototype \<Rightarrow> 'o TranslationUtils \<Rightarrow> language \<Rightarrow> string \<Rightarrow> 'o list
   \<Rightarrow> ('o, 'i) SearchResult list \<Rightarrow> ('o, 'i) SearchResult list" where
  "pushAllSocial js tu language sectionName ls acc =
     foldl (\<lambda>acc link.
        let linkName = orEmpty (getTranslatedName tu language link);
            iconName = getSocialMediaIconName js (orEmpty (getEnglishName tu link))
        in pushLink js sectionName linkName iconName link True acc) acc ls"

definition pushMatchingLinks ::
  "StringPrototype \<Rightarrow> 'o TranslationUtils \<Rightarrow> language \<Rightarrow> string \<Rightarrow> string \<Rightarrow> 'o list
   \<Rightarrow> ('o, 'i) SearchResult list \<Rightarrow> ('o, 'i) SearchResult list" where
  "pushMatchingLinks js tu language searchTerms sectionName ls acc =
     foldl (\<lambda>acc link.
        let linkName = orEmpty (getTranslatedName tu language link)
        in if indexOf (toUpperCase js linkName) searchTerms \<ge> 0
           then pushLink js sectionName linkName ''md-open'' link False acc
           else acc) acc ls"

definition pushMatchingSocial ::
  "StringPrototype \<Rightarrow> 'o TranslationUtils \<Rightarrow> language \<Rightarrow> string \<Rightarrow> string \<Rightarrow> 'o list
   \<Rightarrow> ('o, 'i) SearchResult list \<Rightarrow> ('o, 'i) SearchResult list" where
  "pushMatchingSocial js tu language searchTerms sectionName ls acc =
     foldl (\<lambda>acc link.
        let linkName = orEmpty (getTranslatedName tu language link)
        in if indexOf (toUpperCase js linkName) searchTerms \<ge> 0
           then (let iconName = getSocialMediaIconName js (orEmpty (getEnglishName tu link))
                 in pushLink js sectionName linkName iconName link False acc)
           else acc) acc ls"

text \<open>
  The loop over \<^verbatim>\<open>section.categories\<close>:
  \<^verbatim>\<open>section.categories[j].id = `${section.id}-${section.categories[j].id}`\<close>.
  Both ids are read from the store at the moment of the assignment.
\<close>

definition prefixIds :: "('o, 'i) LinkSection \<Rightarrow> ('o, 'i) LinkSection list \<Rightarrow> id_store \<Rightarrow> id_store" where
  "prefixIds section cs h =
     foldl (\<lambda>h c. h(section_ref c := h (section_ref section) @ ''-'' @ h (section_ref c))) h cs"

text \<open>The body of the main loop, for the section at the current index.\<close>

definition searchSection ::
  "StringPrototype \<Rightarrow> 'o TranslationUtils \<Rightarrow> language \<Rightarrow> string \<Rightarrow> ('o, 'i) LinkSection
   \<Rightarrow> ('o, 'i) search_state \<Rightarrow> ('o, 'i) search_state" where
  "searchSection js tu language searchTerms section st =
     (let sectionName = orEmpty (getTranslatedName tu language (section_fields section));
          st1 =
            (if indexOf (toUpperCase js sectionName) searchTerms \<ge> 0
             then
               (let cats = categories st @
                      [\<lparr>description = see_related_links (getTranslations tu language),
                        data = IdData (ids st (section_ref section)),
                        icon = SectionIcon (section_icon section),
                        matchedTerms = [toUpperCase js sectionName],
                        title = sectionName\<rparr>];
                    ls1 = pushAllLinks js tu language sectionName
                            (entries (section_links section)) (links st);
                    ls2 = pushAllSocial js tu language sectionName
                            (entries (section_social section)) ls1
                in st\<lparr>links := ls2, categories := cats\<rparr>)
             else
               (let ls1 = pushMatchingLinks js tu language searchTerms sectionName
                            (entries (section_links section)) (links st);
                    ls2 = pushMatchingSocial js tu language searchTerms sectionName
                            (entries (section_social section)) ls1
                in st\<lparr>links := ls2\<rparr>))
      in (case section_categories section of
            None \<Rightarrow> st1
          | Some cs \<Rightarrow>
              st1\<lparr>sectionsToSearch := sectionsToSearch st1 @ cs,
                  ids := prefixIds section cs (ids st1)\<rparr>))"

text \<open>The number of sections in a tree, which bounds the work left.\<close>

fun sectionCount :: "('o, 'i) LinkSection \<Rightarrow> nat" where
  "sectionCount (Section r f ic ls so cs) =
     Suc (case cs of None \<Rightarrow> 0 | Some xs \<Rightarrow> sum_list (map sectionCount xs))"

text \<open>
  \<^verbatim>\<open>for (let i = 0; i < sectionsToSearch.length; i++)\<close>, where the body replaces
  \<^verbatim>\<open>sectionsToSearch\<close> by a longer array.
\<close>

function searchLoop ::
  "StringPrototype \<Rightarrow> 'o TranslationUtils \<Rightarrow> language \<Rightarrow> string \<Rightarrow> nat
   \<Rightarrow> ('o, 'i) search_state \<Rightarrow> ('o, 'i) search_state" where
  "searchLoop js tu language searchTerms i st =
     (if i < length (sectionsToSearch st)
      then searchLoop js tu language searchTerms (i + 1)
             (searchSection js tu language searchTerms (sectionsToSearch st ! i) st)
      else st)"
  by pat_completeness auto
termination
proof (relation "measure (\<lambda>(js, tu, language, searchTerms, i, st).
          sum_list (map sectionCount (drop i (sectionsToSearch st))))", goal_cases)
  case 1
  show ?case by simp
next
  case (2 js tu language searchTerms i st)
  define s where "s = sectionsToSearch st ! i"
  have grow: "sectionsToSearch (searchSection js tu language searchTerms s st) =
      sectionsToSearch st @ entries (section_categories s)"
    by (simp add: searchSection_def Let_def entries_def split: option.splits)
  have count: "sectionCount s = Suc (sum_list (map sectionCount (entries (section_categories s))))"
    by (cases s) (simp add: entries_def split: option.splits)
  from 2 have "drop i (sectionsToSearch st) = s # drop (Suc i) (sectionsToSearch st)"
    by (simp add: Cons_nth_drop_Suc s_def)
  with 2 grow count show ?case
    by (simp add: s_def)
qed

declare searchLoop.simps [simp del]

text \<open>
  \<^verbatim>\<open>_getResults\<close>: the promise it returns resolves with \<^verbatim>\<open>results\<close>. The function
  returns the store of the \<^verbatim>\<open>id\<close> fields too, as the traversal has left it.
\<close>

definition initialState :: "('o, 'i) LinkSection list \<Rightarrow> id_store \<Rightarrow> ('o, 'i) search_state" where
  "initialState linkSections h =
     \<lparr>sectionsToSearch = linkSections, links = [], categories = [], ids = h\<rparr>"

definition getResults' ::
  "StringPrototype \<Rightarrow> 'o TranslationUtils \<Rightarrow> language \<Rightarrow> string \<Rightarrow> ('o, 'i) LinkSection list \<Rightarrow> id_store
   \<Rightarrow> (string \<rightharpoonup> ('o, 'i) SearchResult list) \<times> id_store" where
  "getResults' js tu language searchTerms linkSections h =
     (let Translations = getTranslations tu language;
          st = searchLoop js tu language searchTerms 0 (initialState linkSections h);
          results = Map.empty;
          results = results(external_links Translations \<mapsto> links st);
          results = results(useful_links Translations \<mapsto> categories st)
      in (results, ids st))"

text \<open>
  \<^verbatim>\<open>getResults\<close>. The collaborator \<^verbatim>\<open>Configuration\<close> is given by what its two promises
  settle with: \<open>init\<close> is \<open>None\<close> when \<^verbatim>\<open>Configuration.init()\<close> resolves and the error
  when it rejects; \<open>getConfig path\<close> is the error or the section tree (the sections with
  the store of their ids). The function returns how its own promise settles, and the
  trace of the calls it has made.
\<close>

datatype ('e, 'a) promise = Resolved 'a | Rejected 'e

record ('e, 'o, 'i) Configuration =
  init :: "'e option"
  getConfig :: "string \<Rightarrow> 'e + ('o, 'i) LinkSection list \<times> id_store"

datatype 'e effect = ConfigurationInit | ConfigurationGetConfig string | ConsoleError 'e

definition getResults ::
  "StringPrototype \<Rightarrow> ('e, 'o, 'i) Configuration \<Rightarrow> 'o TranslationUtils \<Rightarrow> language \<Rightarrow> string option
   \<Rightarrow> ('e, string \<rightharpoonup> ('o, 'i) SearchResult list) promise \<times> 'e effect list" where
  "getResults js cfg tu language searchTerms =
     (case searchTerms of
        None \<Rightarrow> (Resolved Map.empty, [])
      | Some terms \<Rightarrow>
          if length terms = 0 then (Resolved Map.empty, [])
          else
            (let adjustedSearchTerms = toUpperCase js terms in
             case init cfg of
               Some err \<Rightarrow> (Rejected err, [ConfigurationInit, ConsoleError err])
             | None \<Rightarrow>
                 (case getConfig cfg ''/useful_links.json'' of
                    Inl err \<Rightarrow>
                      (Rejected err,
                       [ConfigurationInit, ConfigurationGetConfig ''/useful_links.json'',
                        ConsoleError err])
                  | Inr (linkSections, h) \<Rightarrow>
                      (Resolved (fst (getResults' js tu language adjustedSearchTerms linkSections h)),
                       [ConfigurationInit, ConfigurationGetConfig ''/useful_links.json'']))))"

section \<open>Vocabulary of the statements\<close>

text \<open>The display name of a section and of a link, as the traversal computes them.\<close>

definition sectionName :: "'o TranslationUtils \<Rightarrow> language \<Rightarrow> ('o, 'i) LinkSection \<Rightarrow> string" where
  "sectionName tu language section = orEmpty (getTranslatedName tu language (section_fields section))"

definition linkName :: "'o TranslationUtils \<Rightarrow> language \<Rightarrow> 'o \<Rightarrow> string" where
  "linkName tu language link = orEmpty (getTranslatedName tu language link)"

text \<open>The subcategories of a section, and all sections of a tree and of a list of trees.\<close>

definition subcategories :: "('o, 'i) LinkSection \<Rightarrow> ('o, 'i) LinkSection list" where
  "subcategories s = entries (section_categories s)"

fun allSections :: "('o, 'i) LinkSection \<Rightarrow> ('o, 'i) LinkSection list" where
  "allSections (Section r f ic ls so cs) =
     Section r f ic ls so cs #
       (case cs of None \<Rightarrow> [] | Some xs \<Rightarrow> concat (map allSections xs))"

definition forestSections :: "('o, 'i) LinkSection list \<Rightarrow> ('o, 'i) LinkSection list" where
  "forestSections secs = concat (map allSections secs)"

text \<open>
  The addresses of all section objects of a list of trees. They are distinct when no
  object occurs twice, as in a tree that has been read from a JSON document.
\<close>

definition forestRefs :: "('o, 'i) LinkSection list \<Rightarrow> nat list" where
  "forestRefs secs = map section_ref (forestSections secs)"

text \<open>
  What one run of the loop body pushes for a section: onto \<^verbatim>\<open>links\<close>, and onto
  \<^verbatim>\<open>categories\<close> when the store of the ids is \<open>h\<close>.
\<close>

definition linksPushedFor ::
  "StringPrototype \<Rightarrow> 'o TranslationUtils \<Rightarrow> language \<Rightarrow> string \<Rightarrow> ('o, 'i) LinkSection
   \<Rightarrow> ('o, 'i) SearchResult list" where
  "linksPushedFor js tu language searchTerms section =
     links (searchSection js tu language searchTerms section (initialState [] (\<lambda>r. [])))"

definition categoriesPushedFor ::
  "StringPrototype \<Rightarrow> 'o TranslationUtils \<Rightarrow> language \<Rightarrow> string \<Rightarrow> id_store \<Rightarrow> ('o, 'i) LinkSection
   \<Rightarrow> ('o, 'i) SearchResult list" where
  "categoriesPushedFor js tu language searchTerms h section =
     categories (searchSection js tu language searchTerms section (initialState [] h))"

text \<open>The state in which the loop of \<^verbatim>\<open>_getResults\<close> ends.\<close>

definition traversal ::
  "StringPrototype \<Rightarrow> 'o TranslationUtils \<Rightarrow> language \<Rightarrow> string \<Rightarrow> ('o, 'i) LinkSection list \<Rightarrow> id_store
   \<Rightarrow> ('o, 'i) search_state" where
  "traversal js tu language searchTerms linkSections h =
     searchLoop js tu language searchTerms 0 (initialState linkSections h)"

text \<open>
  The sections along a path of indices from the top level down: the section at index
  \<open>j\<close>, then the one of its subcategories that the rest of the path selects.
\<close>

fun chainAt :: "('o, 'i) LinkSection list \<Rightarrow> nat list \<Rightarrow> ('o, 'i) LinkSection list option" where
  "chainAt secs [] = Some []"
| "chainAt secs (j # path) =
     (if j < length secs
      then map_option ((#) (secs ! j)) (chainAt (subcategories (secs ! j)) path)
      else None)"

fun dashJoin :: "string list \<Rightarrow> string" where
  "dashJoin [] = []"
| "dashJoin [x] = x"
| "dashJoin (x # y # ys) = x @ ''-'' @ dashJoin (y # ys)"

text \<open>The value found under a key of the mapping a promise has resolved with.\<close>

definition lookupResolved :: "('e, 'k \<rightharpoonup> 'v) promise \<Rightarrow> 'k \<Rightarrow> 'v option" where
  "lookupResolved p k = (case p of Resolved m \<Rightarrow> m k | Rejected e \<Rightarrow> None)"

subsection \<open>Example data\<close>

text \<open>
  The case mappings on the letters \<open>a\<close> to \<open>z\<close> and \<open>A\<close> to \<open>Z\<close>, which is what
  the runtime computes on the unaccented names of these examples. A translation provider over objects that are their own name, a tree of three nested
  sections with the ids \<^verbatim>\<open>events\<close>, \<^verbatim>\<open>academic\<close> and \<^verbatim>\<open>deadlines\<close>, and configurations
  that deliver the tree or fail. A section without a name, links, social entries or
  subcategories.
\<close>

definition asciiCase :: StringPrototype where
  "asciiCase =
     \<lparr>toUpperCase = map (\<lambda>c.
        case map_of (zip ''abcdefghijklmnopqrstuvwxyz'' ''ABCDEFGHIJKLMNOPQRSTUVWXYZ'') c of
          None \<Rightarrow> c | Some u \<Rightarrow> u),
      toLowerCase = map (\<lambda>c.
        case map_of (zip ''ABCDEFGHIJKLMNOPQRSTUVWXYZ'' ''abcdefghijklmnopqrstuvwxyz'') c of
          None \<Rightarrow> c | Some l \<Rightarrow> l)\<rparr>"

definition exampleTranslations :: Translations where
  "exampleTranslations =
     \<lparr>external_links = ''External links'', useful_links = ''Useful links'',
      see_related_links = ''See related links''\<rparr>"

definition exampleTranslationUtils :: "string TranslationUtils" where
  "exampleTranslationUtils =
     \<lparr>getTranslations = (\<lambda>language. exampleTranslations),
      getTranslatedName = (\<lambda>language name. if name = [] then None else Some name),
      getEnglishName = (\<lambda>name. Some name)\<rparr>"

definition sameLabelTranslationUtils :: "string TranslationUtils" where
  "sameLabelTranslationUtils =
     \<lparr>getTranslations = (\<lambda>language.
        \<lparr>external_links = ''Links'', useful_links = ''Links'',
         see_related_links = ''See related links''\<rparr>),
      getTranslatedName = (\<lambda>language name. if name = [] then None else Some name),
      getEnglishName = (\<lambda>name. Some name)\<rparr>"

definition deadlinesSection :: "(string, unit) LinkSection" where
  "deadlinesSection = Section 2 ''Deadlines'' () (Some [''Drop dates'']) None None"

definition academicSection :: "(string, unit) LinkSection" where
  "academicSection = Section 1 ''Academic'' () None None (Some [deadlinesSection])"

definition eventsSection :: "(string, unit) LinkSection" where
  "eventsSection =
     Section 0 ''Events'' () (Some [''Calendar'']) (Some [''Twitter'']) (Some [academicSection])"

definition exampleIds :: id_store where
  "exampleIds = (\<lambda>r. [])(0 := ''events'', 1 := ''academic'', 2 := ''deadlines'')"

definition exampleConfiguration :: "(string, string, unit) Configuration" where
  "exampleConfiguration =
     \<lparr>init = None,
      getConfig = (\<lambda>path. if path = ''/useful_links.json''
                           then Inr ([eventsSection], exampleIds) else Inl ''not found'')\<rparr>"

definition failingConfiguration :: "(string, string, unit) Configuration" where
  "failingConfiguration = \<lparr>init = None, getConfig = (\<lambda>path. Inl ''unavailable'')\<rparr>"

definition bareSection :: "(string, unit) LinkSection" where
  "bareSection = Section 3 [] () None None None"

definition bareConfiguration :: "(string, string, unit) Configuration" where
  "bareConfiguration = \<lparr>init = None, getConfig = (\<lambda>path. Inr ([bareSection], exampleIds))\<rparr>"

text \<open>
  Case mappings that also know the letter e with an acute accent (the characters
  \<open>0xE9\<close> and \<open>0xC9\<close>), and a section with an accented name and an accented link.
\<close>

definition accentCase :: StringPrototype where
  "accentCase =
     \<lparr>toUpperCase = map (\<lambda>c.
        case map_of (zip (CHR 0xE9 # ''abcdefghijklmnopqrstuvwxyz'')
                         (CHR 0xC9 # ''ABCDEFGHIJKLMNOPQRSTUVWXYZ'')) c of
          None \<Rightarrow> c | Some u \<Rightarrow> u),
      toLowerCase = map (\<lambda>c.
        case map_of (zip (CHR 0xC9 # ''ABCDEFGHIJKLMNOPQRSTUVWXYZ'')
                         (CHR 0xE9 # ''abcdefghijklmnopqrstuvwxyz'')) c of
          None \<Rightarrow> c | Some l \<Rightarrow> l)\<rparr>"

definition accentedSection :: "(string, unit) LinkSection" where
  "accentedSection =
     Section 4 (CHR 0xC9 # CHR ''v'' # CHR 0xE9 # ''nements'') ()
       (Some [''Caf'' @ [CHR 0xE9]]) None None"

section \<open>The social media helpers\<close>

lemma indexOf_nonneg_iff: "(0 \<le> indexOf s t) = sublist t s"
  by (induction s) (auto simp: Let_def sublist_Cons_right)

text \<open>
  Claim C8. \<^verbatim>\<open>getSocialMediaIconName\<close> and \<^verbatim>\<open>getSocialMediaIconColor\<close> are functions of
  the platform name alone and return a value for every string: the lower case of the name,
  as the runtime computes it, selects the icon and the colour of one of the six known
  platforms, and every other name gives \<^verbatim>\<open>android-open\<close> and \<^verbatim>\<open>#000000\<close>. The case of the
  letters does not matter: two names with the same lower case give the same icon and the
  same colour.
\<close>

theorem social_media_lookup:
  "(getSocialMediaIconName js s, getSocialMediaIconColor js s) =
     (if toLowerCase js s = ''linkedin'' then (''social-linkedin'', ''#0077B5'')
      else if toLowerCase js s = ''twitter'' then (''social-twitter'', ''#55ACEE'')
      else if toLowerCase js s = ''facebook'' then (''social-facebook'', ''#3D509F'')
      else if toLowerCase js s = ''instagram'' then (''social-instagram-outline'', ''#241F20'')
      else if toLowerCase js s = ''youtube'' then (''social-youtube'', ''#CD201F'')
      else if toLowerCase js s = ''tumblr'' then (''social-tumblr'', ''#35465C'')
      else (''android-open'', ''#000000''))
   \<and> (toLowerCase js s = toLowerCase js t \<longrightarrow>
        getSocialMediaIconName js s = getSocialMediaIconName js t \<and>
        getSocialMediaIconColor js s = getSocialMediaIconColor js t)"
  by (simp add: getSocialMediaIconName_def getSocialMediaIconColor_def Let_def)

theorem social_media_lookup_witness:
  "toLowerCase asciiCase ''Twitter'' = toLowerCase asciiCase ''tWITTER'' \<and>
   getSocialMediaIconName asciiCase ''Twitter'' = ''social-twitter'' \<and>
   getSocialMediaIconColor asciiCase ''tWITTER'' = ''#55ACEE'' \<and>
   getSocialMediaIconName asciiCase ''Mastodon'' = ''android-open'' \<and>
   getSocialMediaIconColor asciiCase ''Mastodon'' = ''#000000''"
proof -
  have l: "toLowerCase asciiCase ''Twitter'' = ''twitter''"
    "toLowerCase asciiCase ''tWITTER'' = ''twitter''"
    "toLowerCase asciiCase ''Mastodon'' = ''mastodon''"
    by (simp_all add: asciiCase_def)
  show ?thesis
    using social_media_lookup [of asciiCase "''Twitter''" "''tWITTER''"]
      social_media_lookup [of asciiCase "''Mastodon''" "''Mastodon''"]
    by (auto simp: l)
qed

text \<open>
  Claim C10. The icon helper returns its fallback exactly when the colour helper returns
  its fallback, which is exactly when the lower-cased name is none of the six platform
  names.
\<close>

theorem social_media_same_names:
  "(getSocialMediaIconName js s = ''android-open'') = (getSocialMediaIconColor js s = ''#000000'')
   \<and> (getSocialMediaIconName js s = ''android-open'') =
       (toLowerCase js s \<notin> {''linkedin'', ''twitter'', ''facebook'', ''instagram'', ''youtube'', ''tumblr''})"
  by (simp add: getSocialMediaIconName_def getSocialMediaIconColor_def Let_def)

section \<open>The loop of the traversal\<close>

lemma pushAllLinks_eq:
  "pushAllLinks js tu language sn ls acc =
     acc @ map (\<lambda>link. \<lparr>description = sn, data = LinkData link,
                 icon = IconObject ''md-open'' ''ionicon'',
                 matchedTerms = [toUpperCase js sn,
                    toUpperCase js (orEmpty (getTranslatedName tu language link))],
                 title = orEmpty (getTranslatedName tu language link)\<rparr>) ls"
  unfolding pushAllLinks_def
  by (induction ls arbitrary: acc) (simp_all add: pushLink_def Let_def)

lemma pushAllSocial_eq:
  "pushAllSocial js tu language sn ls acc =
     acc @ map (\<lambda>link. \<lparr>description = sn, data = LinkData link,
                 icon = IconObject (getSocialMediaIconName js (orEmpty (getEnglishName tu link)))
                          ''ionicon'',
                 matchedTerms = [toUpperCase js sn,
                    toUpperCase js (orEmpty (getTranslatedName tu language link))],
                 title = orEmpty (getTranslatedName tu language link)\<rparr>) ls"
  unfolding pushAllSocial_def
  by (induction ls arbitrary: acc) (simp_all add: pushLink_def Let_def)

lemma pushMatchingLinks_eq:
  "pushMatchingLinks js tu language searchTerms sn ls acc =
     acc @ map (\<lambda>link. \<lparr>description = sn, data = LinkData link,
                 icon = IconObject ''md-open'' ''ionicon'',
                 matchedTerms = [toUpperCase js (orEmpty (getTranslatedName tu language link))],
                 title = orEmpty (getTranslatedName tu language link)\<rparr>)
           (filter (\<lambda>link. sublist searchTerms
               (toUpperCase js (orEmpty (getTranslatedName tu language link)))) ls)"
  unfolding pushMatchingLinks_def
  by (induction ls arbitrary: acc) (simp_all add: pushLink_def Let_def indexOf_nonneg_iff)

lemma pushMatchingSocial_eq:
  "pushMatchingSocial js tu language searchTerms sn ls acc =
     acc @ map (\<lambda>link. \<lparr>description = sn, data = LinkData link,
                 icon = IconObject (getSocialMediaIconName js (orEmpty (getEnglishName tu link)))
                          ''ionicon'',
                 matchedTerms = [toUpperCase js (orEmpty (getTranslatedName tu language link))],
                 title = orEmpty (getTranslatedName tu language link)\<rparr>)
           (filter (\<lambda>link. sublist searchTerms
               (toUpperCase js (orEmpty (getTranslatedName tu language link)))) ls)"
  unfolding pushMatchingSocial_def
  by (induction ls arbitrary: acc) (simp_all add: pushLink_def Let_def indexOf_nonneg_iff)

lemma sectionsToSearch_searchSection:
  "sectionsToSearch (searchSection js tu language searchTerms section st) =
     sectionsToSearch st @ subcategories section"
  by (simp add: searchSection_def Let_def entries_def subcategories_def split: option.splits)

lemma links_searchSection:
  "links (searchSection js tu language searchTerms section st) =
     links st @ linksPushedFor js tu language searchTerms section"
  by (simp add: searchSection_def linksPushedFor_def initialState_def Let_def
      pushAllLinks_eq pushAllSocial_eq pushMatchingLinks_eq pushMatchingSocial_eq
      split: option.splits)

lemma searchLoop_step:
  "i < length (sectionsToSearch st) \<Longrightarrow>
   searchLoop js tu language searchTerms i st =
     searchLoop js tu language searchTerms (Suc i)
       (searchSection js tu language searchTerms (sectionsToSearch st ! i) st)"
  by (subst searchLoop.simps) simp

lemma searchLoop_stop:
  "\<not> i < length (sectionsToSearch st) \<Longrightarrow> searchLoop js tu language searchTerms i st = st"
  by (subst searchLoop.simps) simp

lemma sectionsToSearch_searchLoop_prefix:
  "\<exists>ext. sectionsToSearch (searchLoop js tu language searchTerms i st) = sectionsToSearch st @ ext"
proof (induction js tu language searchTerms i st rule: searchLoop.induct)
  case (1 js tu language searchTerms i st)
  show ?case
  proof (cases "i < length (sectionsToSearch st)")
    case True
    from 1 [OF True] obtain ext where
      "sectionsToSearch (searchLoop js tu language searchTerms (i + 1)
         (searchSection js tu language searchTerms (sectionsToSearch st ! i) st)) =
       sectionsToSearch (searchSection js tu language searchTerms (sectionsToSearch st ! i) st) @ ext"
      by blast
    with True show ?thesis
      by (simp add: searchLoop_step sectionsToSearch_searchSection)
  next
    case False
    then show ?thesis by (simp add: searchLoop_stop)
  qed
qed

lemma searchLoop_nth:
  assumes "i < length (sectionsToSearch st)"
  shows "sectionsToSearch (searchLoop js tu language searchTerms j st) ! i = sectionsToSearch st ! i"
    and "i < length (sectionsToSearch (searchLoop js tu language searchTerms j st))"
proof -
  obtain ext where "sectionsToSearch (searchLoop js tu language searchTerms j st) =
      sectionsToSearch st @ ext"
    using sectionsToSearch_searchLoop_prefix by blast
  with assms show "sectionsToSearch (searchLoop js tu language searchTerms j st) ! i =
      sectionsToSearch st ! i"
    and "i < length (sectionsToSearch (searchLoop js tu language searchTerms j st))"
    by (simp_all add: nth_append)
qed

lemma links_searchLoop:
  "links (searchLoop js tu language searchTerms i st) =
     links st @ concat (map (linksPushedFor js tu language searchTerms)
       (drop i (sectionsToSearch (searchLoop js tu language searchTerms i st))))"
proof (induction js tu language searchTerms i st rule: searchLoop.induct)
  case (1 js tu language searchTerms i st)
  show ?case
  proof (cases "i < length (sectionsToSearch st)")
    case True
    let ?s = "sectionsToSearch st ! i"
    let ?st = "searchSection js tu language searchTerms ?s st"
    let ?F = "sectionsToSearch (searchLoop js tu language searchTerms (Suc i) ?st)"
    have i: "i < length (sectionsToSearch ?st)"
      using True by (simp add: sectionsToSearch_searchSection)
    have "?F ! i = ?s" "i < length ?F"
      using searchLoop_nth [OF i, of js tu language searchTerms "Suc i"]
      by (simp_all add: sectionsToSearch_searchSection nth_append True)
    then have "drop i ?F = ?s # drop (Suc i) ?F"
      by (metis Cons_nth_drop_Suc)
    with 1 [OF True] True show ?thesis
      by (simp add: searchLoop_step links_searchSection)
  next
    case False
    then show ?thesis by (simp add: searchLoop_stop)
  qed
qed

lemma sectionsToSearch_searchLoop_fixpoint:
  "i \<le> length (sectionsToSearch st) \<Longrightarrow>
   sectionsToSearch (searchLoop js tu language searchTerms i st) =
     sectionsToSearch st @ concat (map subcategories
       (drop i (sectionsToSearch (searchLoop js tu language searchTerms i st))))"
proof (induction js tu language searchTerms i st rule: searchLoop.induct)
  case (1 js tu language searchTerms i st)
  show ?case
  proof (cases "i < length (sectionsToSearch st)")
    case True
    let ?s = "sectionsToSearch st ! i"
    let ?st = "searchSection js tu language searchTerms ?s st"
    let ?F = "sectionsToSearch (searchLoop js tu language searchTerms (Suc i) ?st)"
    have i: "i < length (sectionsToSearch ?st)"
      using True by (simp add: sectionsToSearch_searchSection)
    have "?F ! i = ?s" "i < length ?F"
      using searchLoop_nth [OF i, of js tu language searchTerms "Suc i"]
      by (simp_all add: sectionsToSearch_searchSection nth_append True)
    then have d: "drop i ?F = ?s # drop (Suc i) ?F"
      by (metis Cons_nth_drop_Suc)
    have "i + 1 \<le> length (sectionsToSearch ?st)" using i by simp
    from 1(1) [OF True this] d True show ?thesis
      by (simp add: searchLoop_step sectionsToSearch_searchSection)
  next
    case False
    with 1(2) show ?thesis by (simp add: searchLoop_stop)
  qed
qed

lemma allSections_eq: "allSections s = s # concat (map allSections (subcategories s))"
  by (cases s) (simp add: subcategories_def entries_def split: option.splits)

lemma mset_searchLoop:
  "i \<le> length (sectionsToSearch st) \<Longrightarrow>
   mset (drop i (sectionsToSearch (searchLoop js tu language searchTerms i st))) =
     mset (forestSections (drop i (sectionsToSearch st)))"
proof (induction js tu language searchTerms i st rule: searchLoop.induct)
  case (1 js tu language searchTerms i st)
  show ?case
  proof (cases "i < length (sectionsToSearch st)")
    case True
    let ?s = "sectionsToSearch st ! i"
    let ?st = "searchSection js tu language searchTerms ?s st"
    let ?F = "sectionsToSearch (searchLoop js tu language searchTerms (Suc i) ?st)"
    have i: "i < length (sectionsToSearch ?st)"
      using True by (simp add: sectionsToSearch_searchSection)
    have "?F ! i = ?s" "i < length ?F"
      using searchLoop_nth [OF i, of js tu language searchTerms "Suc i"]
      by (simp_all add: sectionsToSearch_searchSection nth_append True)
    then have d: "drop i ?F = ?s # drop (Suc i) ?F"
      by (metis Cons_nth_drop_Suc)
    have d0: "drop i (sectionsToSearch st) = ?s # drop (Suc i) (sectionsToSearch st)"
      using True by (simp add: Cons_nth_drop_Suc)
    have "i + 1 \<le> length (sectionsToSearch ?st)" using i by simp
    from 1(1) [OF True this] have "mset (drop (Suc i) ?F) =
        mset (forestSections (drop (Suc i) (sectionsToSearch st) @ subcategories ?s))"
      using True by (simp add: sectionsToSearch_searchSection)
    then show ?thesis
      using True by (simp add: searchLoop_step d d0 forestSections_def allSections_eq [of ?s])
  next
    case False
    with 1(2) show ?thesis by (simp add: searchLoop_stop forestSections_def)
  qed
qed


lemma forestRefs_Cons:
  "forestRefs (s # secs) = section_ref s # forestRefs (subcategories s) @ forestRefs secs"
  by (simp add: forestRefs_def forestSections_def allSections_eq [of s])

lemma forestRefs_append: "forestRefs (xs @ ys) = forestRefs xs @ forestRefs ys"
  by (simp add: forestRefs_def forestSections_def)

lemma forestRefs_Nil: "forestRefs [] = []"
  by (simp add: forestRefs_def forestSections_def)

lemma roots_subset_forestRefs: "s \<in> set secs \<Longrightarrow> section_ref s \<in> set (forestRefs secs)"
  by (induction secs) (auto simp: forestRefs_Cons)

lemma below_subset_forestRefs:
  "set (forestRefs (concat (map subcategories cs))) \<subseteq> set (forestRefs cs)"
  by (induction cs) (auto simp: forestRefs_Cons forestRefs_Nil forestRefs_append)

lemma prefixIds_Nil: "prefixIds s [] h = h"
  by (simp add: prefixIds_def)

lemma prefixIds_Cons:
  "prefixIds s (c # cs) h =
     prefixIds s cs (h(section_ref c := h (section_ref s) @ ''-'' @ h (section_ref c)))"
  by (simp add: prefixIds_def)

lemma prefixIds_other:
  "r \<notin> section_ref ` set cs \<Longrightarrow> prefixIds s cs h r = h r"
  by (induction cs arbitrary: h) (simp_all add: prefixIds_Nil prefixIds_Cons)

lemma prefixIds_child:
  "distinct (map section_ref cs) \<Longrightarrow> section_ref s \<notin> section_ref ` set cs \<Longrightarrow> c \<in> set cs \<Longrightarrow>
   prefixIds s cs h (section_ref c) = h (section_ref s) @ ''-'' @ h (section_ref c)"
proof (induction cs arbitrary: h)
  case Nil
  then show ?case by simp
next
  case (Cons x cs)
  show ?case
  proof (cases "c = x")
    case True
    with Cons.prems show ?thesis
      by (simp add: prefixIds_Cons prefixIds_other)
  next
    case False
    with Cons.prems have c: "c \<in> set cs"
      by auto
    with Cons.prems have ne: "section_ref c \<noteq> section_ref x"
      by (auto simp: image_iff)
    from Cons.prems have "distinct (map section_ref cs)" "section_ref s \<notin> section_ref ` set cs"
      "section_ref s \<noteq> section_ref x"
      by auto
    with Cons.IH [OF _ _ c] ne show ?thesis
      by (simp add: prefixIds_Cons)
  qed
qed

lemma ids_searchSection:
  "ids (searchSection js tu language searchTerms s st) = prefixIds s (subcategories s) (ids st)"
  by (simp add: searchSection_def Let_def subcategories_def entries_def prefixIds_Nil
      split: option.splits)

lemma categories_searchSection:
  "categories (searchSection js tu language searchTerms s st) =
     categories st @ categoriesPushedFor js tu language searchTerms (ids st) s"
  by (simp add: searchSection_def categoriesPushedFor_def initialState_def Let_def
      split: option.splits)

lemma categoriesPushedFor_cong:
  "h (section_ref s) = h' (section_ref s) \<Longrightarrow>
   categoriesPushedFor js tu language searchTerms h s = categoriesPushedFor js tu language searchTerms h' s"
  by (simp add: searchSection_def categoriesPushedFor_def initialState_def Let_def
      split: option.splits)

text \<open>Only ids of sections below the ones in the rest of the work list are assigned.\<close>

lemma ids_searchLoop_frame:
  "i \<le> length (sectionsToSearch st) \<Longrightarrow>
   r \<notin> set (forestRefs (concat (map subcategories (drop i (sectionsToSearch st))))) \<Longrightarrow>
   ids (searchLoop js tu language searchTerms i st) r = ids st r"
proof (induction js tu language searchTerms i st rule: searchLoop.induct)
  case (1 js tu language searchTerms i st)
  show ?case
  proof (cases "i < length (sectionsToSearch st)")
    case True
    let ?s = "sectionsToSearch st ! i"
    let ?st = "searchSection js tu language searchTerms ?s st"
    have d0: "drop i (sectionsToSearch st) = ?s # drop (Suc i) (sectionsToSearch st)"
      using True by (simp add: Cons_nth_drop_Suc)
    from 1(3) have r1: "r \<notin> set (forestRefs (subcategories ?s))"
      and r2: "r \<notin> set (forestRefs (concat (map subcategories
                  (drop (Suc i) (sectionsToSearch st)))))"
      by (simp_all add: d0 forestRefs_append)
    have r3: "r \<notin> set (forestRefs (concat (map subcategories (subcategories ?s))))"
      using r1 below_subset_forestRefs by blast
    have r4: "r \<notin> section_ref ` set (subcategories ?s)"
      using r1 roots_subset_forestRefs by fastforce
    have "i + 1 \<le> length (sectionsToSearch ?st)"
      using True by (simp add: sectionsToSearch_searchSection)
    moreover have "r \<notin> set (forestRefs (concat (map subcategories
        (drop (i + 1) (sectionsToSearch ?st)))))"
      using True r2 r3 by (simp add: sectionsToSearch_searchSection forestRefs_append)
    ultimately have "ids (searchLoop js tu language searchTerms (i + 1) ?st) r = ids ?st r"
      by (rule 1(1) [OF True])
    with True r4 show ?thesis
      by (simp add: searchLoop_step ids_searchSection prefixIds_other)
  next
    case False
    then show ?thesis by (simp add: searchLoop_stop)
  qed
qed

text \<open>What the traversal leaves in the store, when no object occurs twice in the tree.\<close>

lemma distinct_forestRefs_step:
  assumes "distinct (forestRefs (s # rest))"
  shows "distinct (forestRefs (rest @ subcategories s))"
    and "section_ref s \<notin> set (forestRefs (rest @ subcategories s))"
  using assms by (auto simp: forestRefs_Cons forestRefs_append)

lemma roots_not_below:
  "distinct (forestRefs secs) \<Longrightarrow> s \<in> set secs \<Longrightarrow>
   section_ref s \<notin> set (forestRefs (concat (map subcategories secs)))"
proof (induction secs)
  case Nil
  then show ?case by simp
next
  case (Cons x secs)
  have sub: "set (forestRefs (concat (map subcategories secs))) \<subseteq> set (forestRefs secs)"
    by (rule below_subset_forestRefs)
  show ?case
  proof (cases "s = x")
    case True
    with Cons.prems sub show ?thesis
      by (auto simp: forestRefs_Cons forestRefs_append)
  next
    case False
    with Cons.prems have s: "s \<in> set secs" by simp
    then have "section_ref s \<in> set (forestRefs secs)" by (rule roots_subset_forestRefs)
    with Cons.prems Cons.IH s show ?thesis
      by (auto simp: forestRefs_Cons forestRefs_append)
  qed
qed


lemma self_in_allSections: "s \<in> set (allSections s)"
  by (simp add: allSections_eq [of s])

lemma child_in_forestSections:
  "p \<in> set (allSections x) \<Longrightarrow> c \<in> set (subcategories p) \<Longrightarrow>
   c \<in> set (forestSections (subcategories x))"
proof (induction x rule: allSections.induct)
  case (1 r f ic ls so cs)
  let ?x = "Section r f ic ls so cs"
  show ?case
  proof (cases "p = ?x")
    case True
    with 1(3) self_in_allSections [of c] show ?thesis
      by (auto simp: forestSections_def)
  next
    case False
    with 1(2) obtain xs y where cs: "cs = Some xs" and y: "y \<in> set xs" and p: "p \<in> set (allSections y)"
      by (auto split: option.splits)
    from 1(1) [OF cs y p 1(3)] have "c \<in> set (forestSections (subcategories y))" .
    then have "c \<in> set (allSections y)"
      by (simp add: allSections_eq [of y] forestSections_def)
    with cs y show ?thesis
      by (auto simp: forestSections_def subcategories_def entries_def)
  qed
qed

lemma child_below:
  "p \<in> set (forestSections secs) \<Longrightarrow> c \<in> set (subcategories p) \<Longrightarrow>
   section_ref c \<in> set (forestRefs (concat (map subcategories secs)))"
proof -
  assume "p \<in> set (forestSections secs)" and c: "c \<in> set (subcategories p)"
  then obtain x where x: "x \<in> set secs" and "p \<in> set (allSections x)"
    by (auto simp: forestSections_def)
  with c have "c \<in> set (forestSections (subcategories x))"
    by (simp add: child_in_forestSections)
  with x show ?thesis
    by (auto simp: forestRefs_def forestSections_def)
qed

lemma distinct_roots: "distinct (forestRefs cs) \<Longrightarrow> distinct (map section_ref cs)"
proof (induction cs)
  case Nil
  show ?case by simp
next
  case (Cons c cs)
  from Cons.prems have "section_ref c \<notin> set (forestRefs cs)" "distinct (forestRefs cs)"
    by (simp_all add: forestRefs_Cons)
  with Cons.IH roots_subset_forestRefs [of _ cs] show ?case
    by auto
qed

lemma ids_searchLoop_root:
  assumes "i \<le> length (sectionsToSearch st)"
    and "distinct (forestRefs (drop i (sectionsToSearch st)))"
    and "s \<in> set (drop i (sectionsToSearch st))"
  shows "ids (searchLoop js tu language searchTerms i st) (section_ref s) = ids st (section_ref s)"
  using assms by (simp add: ids_searchLoop_frame roots_not_below)

lemma ids_searchLoop_children:
  "i \<le> length (sectionsToSearch st) \<Longrightarrow>
   distinct (forestRefs (drop i (sectionsToSearch st))) \<Longrightarrow>
   p \<in> set (forestSections (drop i (sectionsToSearch st))) \<Longrightarrow>
   c \<in> set (subcategories p) \<Longrightarrow>
   ids (searchLoop js tu language searchTerms i st) (section_ref c) =
     ids (searchLoop js tu language searchTerms i st) (section_ref p) @ ''-'' @ ids st (section_ref c)"
proof (induction js tu language searchTerms i st rule: searchLoop.induct)
  case (1 js tu language searchTerms i st)
  show ?case
  proof (cases "i < length (sectionsToSearch st)")
    case True
    let ?s = "sectionsToSearch st ! i"
    let ?rest = "drop (Suc i) (sectionsToSearch st)"
    let ?cats = "subcategories ?s"
    let ?st = "searchSection js tu language searchTerms ?s st"
    let ?F = "ids (searchLoop js tu language searchTerms (Suc i) ?st)"
    have d0: "drop i (sectionsToSearch st) = ?s # ?rest"
      using True by (simp add: Cons_nth_drop_Suc)
    have d1: "drop (Suc i) (sectionsToSearch ?st) = ?rest @ ?cats"
      using True by (simp add: sectionsToSearch_searchSection)
    have le: "Suc i \<le> length (sectionsToSearch ?st)"
      using True by (simp add: sectionsToSearch_searchSection)
    from 1(3) have dist: "distinct (forestRefs (?rest @ ?cats))"
      and snot: "section_ref ?s \<notin> set (forestRefs (?rest @ ?cats))"
      by (simp_all add: d0 distinct_forestRefs_step)
    from dist have dcats: "distinct (map section_ref ?cats)"
      by (simp add: forestRefs_append distinct_roots)
    from snot have snot': "section_ref ?s \<notin> section_ref ` set ?cats"
      using roots_subset_forestRefs [of _ "?rest @ ?cats"] by auto
    have loop: "searchLoop js tu language searchTerms i st =
        searchLoop js tu language searchTerms (Suc i) ?st"
      using True by (rule searchLoop_step)
    have Fs: "?F (section_ref ?s) = ids st (section_ref ?s)"
    proof -
      have "section_ref ?s \<notin> set (forestRefs (concat (map subcategories (?rest @ ?cats))))"
        using snot below_subset_forestRefs [of "?rest @ ?cats"] by blast
      then have "?F (section_ref ?s) = ids ?st (section_ref ?s)"
        using le by (simp add: ids_searchLoop_frame d1)
      with snot' show ?thesis
        by (simp add: ids_searchSection prefixIds_other)
    qed
    show ?thesis
    proof (cases "p = ?s")
      case True
      with 1(5) have c: "c \<in> set ?cats" by simp
      then have "c \<in> set (drop (Suc i) (sectionsToSearch ?st))"
        by (simp add: d1)
      with le dist have "?F (section_ref c) = ids ?st (section_ref c)"
        by (simp add: ids_searchLoop_root d1)
      also have "\<dots> = ids st (section_ref ?s) @ ''-'' @ ids st (section_ref c)"
        using dcats snot' c by (simp add: ids_searchSection prefixIds_child)
      finally show ?thesis
        using True Fs by (simp add: loop)
    next
      case False
      with 1(4) have p: "p \<in> set (forestSections (?rest @ ?cats))"
        by (auto simp: d0 forestSections_def allSections_eq [of ?s])
      have "?F (section_ref c) = ?F (section_ref p) @ ''-'' @ ids ?st (section_ref c)"
        using 1(1) [OF True] le dist p 1(5) by (simp add: d1)
      moreover have "ids ?st (section_ref c) = ids st (section_ref c)"
      proof -
        have below: "section_ref c \<in> set (forestRefs (concat (map subcategories (?rest @ ?cats))))"
          using p 1(5) by (rule child_below)
        have "section_ref c \<notin> section_ref ` set ?cats"
        proof
          assume "section_ref c \<in> section_ref ` set ?cats"
          then obtain x where "x \<in> set (?rest @ ?cats)" "section_ref c = section_ref x"
            by auto
          with roots_not_below [OF dist, of x] below show False
            by simp
        qed
        then show ?thesis
          by (simp add: ids_searchSection prefixIds_other)
      qed
      ultimately show ?thesis
        by (simp add: loop)
    qed
  next
    case False
    with 1(2,4) show ?thesis
      by (simp add: forestSections_def)
  qed
qed

lemma categories_searchLoop:
  "i \<le> length (sectionsToSearch st) \<Longrightarrow>
   distinct (forestRefs (drop i (sectionsToSearch st))) \<Longrightarrow>
   categories (searchLoop js tu language searchTerms i st) =
     categories st @
     concat (map (categoriesPushedFor js tu language searchTerms
                    (ids (searchLoop js tu language searchTerms i st)))
       (drop i (sectionsToSearch (searchLoop js tu language searchTerms i st))))"
proof (induction js tu language searchTerms i st rule: searchLoop.induct)
  case (1 js tu language searchTerms i st)
  show ?case
  proof (cases "i < length (sectionsToSearch st)")
    case True
    let ?s = "sectionsToSearch st ! i"
    let ?rest = "drop (Suc i) (sectionsToSearch st)"
    let ?cats = "subcategories ?s"
    let ?st = "searchSection js tu language searchTerms ?s st"
    let ?L = "searchLoop js tu language searchTerms (Suc i) ?st"
    have d0: "drop i (sectionsToSearch st) = ?s # ?rest"
      using True by (simp add: Cons_nth_drop_Suc)
    have d1: "drop (Suc i) (sectionsToSearch ?st) = ?rest @ ?cats"
      using True by (simp add: sectionsToSearch_searchSection)
    have le: "Suc i \<le> length (sectionsToSearch ?st)"
      using True by (simp add: sectionsToSearch_searchSection)
    have i: "i < length (sectionsToSearch ?st)"
      using True by (simp add: sectionsToSearch_searchSection)
    from 1(3) have dist: "distinct (forestRefs (?rest @ ?cats))"
      by (simp add: d0 distinct_forestRefs_step)
    have loop: "searchLoop js tu language searchTerms i st = ?L"
      using True by (rule searchLoop_step)
    have "sectionsToSearch ?L ! i = ?s" "i < length (sectionsToSearch ?L)"
      using searchLoop_nth [OF i, of js tu language searchTerms "Suc i"]
      by (simp_all add: sectionsToSearch_searchSection nth_append True)
    then have d: "drop i (sectionsToSearch ?L) = ?s # drop (Suc i) (sectionsToSearch ?L)"
      by (metis Cons_nth_drop_Suc)
    have "ids (searchLoop js tu language searchTerms i st) (section_ref ?s) = ids st (section_ref ?s)"
      using 1(2,3) by (rule ids_searchLoop_root) (simp add: d0)
    then have same: "categoriesPushedFor js tu language searchTerms (ids st) ?s =
        categoriesPushedFor js tu language searchTerms (ids ?L) ?s"
      by (intro categoriesPushedFor_cong) (simp add: loop)
    have "categories ?L = categories ?st @
        concat (map (categoriesPushedFor js tu language searchTerms (ids ?L))
          (drop (Suc i) (sectionsToSearch ?L)))"
      using 1(1) [OF True] le dist by (simp add: d1)
    then show ?thesis
      by (simp add: loop d categories_searchSection same)
  next
    case False
    then show ?thesis by (simp add: searchLoop_stop)
  qed
qed

lemma linksPushedFor_matching:
  "sublist searchTerms (toUpperCase js (sectionName tu language section)) \<Longrightarrow>
   linksPushedFor js tu language searchTerms section =
     map (\<lambda>link. \<lparr>description = sectionName tu language section, data = LinkData link,
                 icon = IconObject ''md-open'' ''ionicon'',
                 matchedTerms = [toUpperCase js (sectionName tu language section),
                                 toUpperCase js (linkName tu language link)],
                 title = linkName tu language link\<rparr>) (entries (section_links section)) @
     map (\<lambda>link. \<lparr>description = sectionName tu language section, data = LinkData link,
                 icon = IconObject (getSocialMediaIconName js (orEmpty (getEnglishName tu link)))
                          ''ionicon'',
                 matchedTerms = [toUpperCase js (sectionName tu language section),
                                 toUpperCase js (linkName tu language link)],
                 title = linkName tu language link\<rparr>) (entries (section_social section))"
  by (simp add: linksPushedFor_def searchSection_def initialState_def Let_def sectionName_def
      linkName_def indexOf_nonneg_iff pushAllLinks_eq pushAllSocial_eq split: option.splits)

lemma linksPushedFor_other:
  "\<not> sublist searchTerms (toUpperCase js (sectionName tu language section)) \<Longrightarrow>
   linksPushedFor js tu language searchTerms section =
     map (\<lambda>link. \<lparr>description = sectionName tu language section, data = LinkData link,
                 icon = IconObject ''md-open'' ''ionicon'',
                 matchedTerms = [toUpperCase js (linkName tu language link)],
                 title = linkName tu language link\<rparr>)
       (filter (\<lambda>link. sublist searchTerms (toUpperCase js (linkName tu language link)))
          (entries (section_links section))) @
     map (\<lambda>link. \<lparr>description = sectionName tu language section, data = LinkData link,
                 icon = IconObject (getSocialMediaIconName js (orEmpty (getEnglishName tu link)))
                          ''ionicon'',
                 matchedTerms = [toUpperCase js (linkName tu language link)],
                 title = linkName tu language link\<rparr>)
       (filter (\<lambda>link. sublist searchTerms (toUpperCase js (linkName tu language link)))
          (entries (section_social section)))"
  by (simp add: linksPushedFor_def searchSection_def initialState_def Let_def sectionName_def
      linkName_def indexOf_nonneg_iff pushMatchingLinks_eq pushMatchingSocial_eq
      split: option.splits)

lemma categoriesPushedFor_eq:
  "categoriesPushedFor js tu language searchTerms h section =
     (if sublist searchTerms (toUpperCase js (sectionName tu language section))
      then [\<lparr>description = see_related_links (getTranslations tu language),
             data = IdData (h (section_ref section)),
             icon = SectionIcon (section_icon section),
             matchedTerms = [toUpperCase js (sectionName tu language section)],
             title = sectionName tu language section\<rparr>]
      else [])"
  by (simp add: categoriesPushedFor_def searchSection_def initialState_def Let_def
      sectionName_def indexOf_nonneg_iff split: option.splits)

lemma titles_searchLoop:
  "map title (categories (searchLoop js tu language searchTerms i st)) =
     map title (categories st) @
     map (sectionName tu language)
       (filter (\<lambda>s. sublist searchTerms (toUpperCase js (sectionName tu language s)))
          (drop i (sectionsToSearch (searchLoop js tu language searchTerms i st))))"
proof (induction js tu language searchTerms i st rule: searchLoop.induct)
  case (1 js tu language searchTerms i st)
  show ?case
  proof (cases "i < length (sectionsToSearch st)")
    case True
    let ?s = "sectionsToSearch st ! i"
    let ?st = "searchSection js tu language searchTerms ?s st"
    let ?F = "sectionsToSearch (searchLoop js tu language searchTerms (Suc i) ?st)"
    have i: "i < length (sectionsToSearch ?st)"
      using True by (simp add: sectionsToSearch_searchSection)
    have "?F ! i = ?s" "i < length ?F"
      using searchLoop_nth [OF i, of js tu language searchTerms "Suc i"]
      by (simp_all add: sectionsToSearch_searchSection nth_append True)
    then have "drop i ?F = ?s # drop (Suc i) ?F"
      by (metis Cons_nth_drop_Suc)
    with 1 [OF True] True show ?thesis
      by (simp add: searchLoop_step categories_searchSection categoriesPushedFor_eq)
  next
    case False
    then show ?thesis by (simp add: searchLoop_stop)
  qed
qed

lemma traversal_links:
  "links (traversal js tu language searchTerms linkSections h) =
     concat (map (linksPushedFor js tu language searchTerms)
       (sectionsToSearch (traversal js tu language searchTerms linkSections h)))"
  using links_searchLoop [of js tu language searchTerms 0 "initialState linkSections h"]
  by (simp add: traversal_def initialState_def)

lemma traversal_mset:
  "mset (sectionsToSearch (traversal js tu language searchTerms linkSections h)) =
     mset (forestSections linkSections)"
  using mset_searchLoop [of 0 "initialState linkSections h" js tu language searchTerms]
  by (simp add: traversal_def initialState_def)

lemma traversal_titles:
  "map title (categories (traversal js tu language searchTerms linkSections h)) =
     map (sectionName tu language)
       (filter (\<lambda>s. sublist searchTerms (toUpperCase js (sectionName tu language s)))
          (sectionsToSearch (traversal js tu language searchTerms linkSections h)))"
  using titles_searchLoop [of js tu language searchTerms 0 "initialState linkSections h"]
  by (simp add: traversal_def initialState_def)

lemma concat_map_split_at:
  "k < length xs \<Longrightarrow>
   concat (map f xs) = concat (map f (take k xs)) @ f (xs ! k) @ concat (map f (drop (Suc k) xs))"
proof -
  assume "k < length xs"
  then have "xs = take k xs @ xs ! k # drop (Suc k) xs"
    by (simp add: id_take_nth_drop)
  then have "concat (map f xs) = concat (map f (take k xs @ xs ! k # drop (Suc k) xs))"
    by simp
  then show ?thesis by simp
qed

lemma traversal_visits:
  assumes "section \<in> set (forestSections linkSections)"
  shows "\<exists>k < length (sectionsToSearch (traversal js tu language searchTerms linkSections h)).
     sectionsToSearch (traversal js tu language searchTerms linkSections h) ! k = section \<and>
     links (traversal js tu language searchTerms linkSections h) =
       concat (map (linksPushedFor js tu language searchTerms)
         (take k (sectionsToSearch (traversal js tu language searchTerms linkSections h)))) @
       linksPushedFor js tu language searchTerms section @
       concat (map (linksPushedFor js tu language searchTerms)
         (drop (Suc k) (sectionsToSearch (traversal js tu language searchTerms linkSections h))))"
proof -
  let ?order = "sectionsToSearch (traversal js tu language searchTerms linkSections h)"
  from assms have "section \<in> set ?order"
    using traversal_mset [of js tu language searchTerms linkSections h] by (metis set_mset_mset)
  then obtain k where k: "k < length ?order" "?order ! k = section"
    by (auto simp: in_set_conv_nth)
  with concat_map_split_at [OF k(1), of "linksPushedFor js tu language searchTerms"]
  show ?thesis
    by (auto simp: traversal_links [symmetric])
qed

text \<open>The definitions that evaluating the traversal on the example data unfolds.\<close>

lemmas example_defs =
  exampleTranslationUtils_def exampleTranslations_def sameLabelTranslationUtils_def
  eventsSection_def academicSection_def deadlinesSection_def exampleIds_def
  initialState_def searchSection_def pushAllLinks_def pushAllSocial_def
  pushMatchingLinks_def pushMatchingSocial_def pushLink_def prefixIds_def entries_def
  orEmpty_def asciiCase_def
  getSocialMediaIconName_def sectionName_def linkName_def Let_def

section \<open>What a visit pushes\<close>

text \<open>
  Claim C1. Every section of the tree is visited once. When the upper-cased display name
  of a section contains the search terms, the visit pushes one result for each entry of
  the section's \<^verbatim>\<open>links\<close> and then one for each entry of its \<^verbatim>\<open>social\<close>, whatever
  the name of the entry, and \<^verbatim>\<open>matchedTerms\<close> of each of them is the upper-cased section
  name followed by the upper-cased link name. The \<^verbatim>\<open>links\<close> output is what has been
  pushed for the sections visited before, then these results, then what is pushed for the
  sections visited later.
\<close>

theorem matching_section_pushes_every_link:
  assumes "section \<in> set (forestSections linkSections)"
    and "sublist searchTerms (toUpperCase js (sectionName tu language section))"
  shows "linksPushedFor js tu language searchTerms section =
     map (\<lambda>link. \<lparr>description = sectionName tu language section, data = LinkData link,
                 icon = IconObject ''md-open'' ''ionicon'',
                 matchedTerms = [toUpperCase js (sectionName tu language section),
                                 toUpperCase js (linkName tu language link)],
                 title = linkName tu language link\<rparr>) (entries (section_links section)) @
     map (\<lambda>link. \<lparr>description = sectionName tu language section, data = LinkData link,
                 icon = IconObject (getSocialMediaIconName js (orEmpty (getEnglishName tu link)))
                          ''ionicon'',
                 matchedTerms = [toUpperCase js (sectionName tu language section),
                                 toUpperCase js (linkName tu language link)],
                 title = linkName tu language link\<rparr>) (entries (section_social section))
   \<and> (\<forall>r \<in> set (linksPushedFor js tu language searchTerms section). length (matchedTerms r) = 2)
   \<and> (\<exists>k < length (sectionsToSearch (traversal js tu language searchTerms linkSections h)).
        sectionsToSearch (traversal js tu language searchTerms linkSections h) ! k = section \<and>
        links (traversal js tu language searchTerms linkSections h) =
          concat (map (linksPushedFor js tu language searchTerms)
            (take k (sectionsToSearch (traversal js tu language searchTerms linkSections h)))) @
          linksPushedFor js tu language searchTerms section @
          concat (map (linksPushedFor js tu language searchTerms)
            (drop (Suc k) (sectionsToSearch (traversal js tu language searchTerms linkSections h)))))
   \<and> mset (sectionsToSearch (traversal js tu language searchTerms linkSections h)) =
       mset (forestSections linkSections)"
proof -
  have two: "\<forall>r \<in> set (linksPushedFor js tu language searchTerms section). length (matchedTerms r) = 2"
    by (auto simp: linksPushedFor_matching [OF assms(2)])
  show ?thesis
    by (intro conjI linksPushedFor_matching two traversal_visits traversal_mset assms)
qed

theorem matching_section_pushes_every_link_witness:
  "eventsSection \<in> set (forestSections [eventsSection]) \<and>
   sublist ''EVENTS'' (toUpperCase asciiCase (sectionName exampleTranslationUtils ''en'' eventsSection)) \<and>
   linksPushedFor asciiCase exampleTranslationUtils ''en'' ''EVENTS'' eventsSection =
     [\<lparr>description = ''Events'', data = LinkData ''Calendar'',
       icon = IconObject ''md-open'' ''ionicon'',
       matchedTerms = [''EVENTS'', ''CALENDAR''], title = ''Calendar''\<rparr>,
      \<lparr>description = ''Events'', data = LinkData ''Twitter'',
       icon = IconObject ''social-twitter'' ''ionicon'',
       matchedTerms = [''EVENTS'', ''TWITTER''], title = ''Twitter''\<rparr>]"
proof -
  have h1: "eventsSection \<in> set (forestSections [eventsSection])"
    by (simp add: forestSections_def eventsSection_def)
  have "0 \<le> indexOf (toUpperCase asciiCase (sectionName exampleTranslationUtils ''en'' eventsSection)) ''EVENTS''"
    by (simp add: example_defs)
  then have h2: "sublist ''EVENTS''
      (toUpperCase asciiCase (sectionName exampleTranslationUtils ''en'' eventsSection))"
    unfolding indexOf_nonneg_iff .
  from matching_section_pushes_every_link [OF h1 h2, of exampleIds]
  have "linksPushedFor asciiCase exampleTranslationUtils ''en'' ''EVENTS'' eventsSection =
     map (\<lambda>link. \<lparr>description = sectionName exampleTranslationUtils ''en'' eventsSection,
                 data = LinkData link,
                 icon = IconObject ''md-open'' ''ionicon'',
                 matchedTerms = [toUpperCase asciiCase (sectionName exampleTranslationUtils ''en'' eventsSection),
                                 toUpperCase asciiCase (linkName exampleTranslationUtils ''en'' link)],
                 title = linkName exampleTranslationUtils ''en'' link\<rparr>)
       (entries (section_links eventsSection)) @
     map (\<lambda>link. \<lparr>description = sectionName exampleTranslationUtils ''en'' eventsSection,
                 data = LinkData link,
                 icon = IconObject (getSocialMediaIconName asciiCase
                          (orEmpty (getEnglishName exampleTranslationUtils link))) ''ionicon'',
                 matchedTerms = [toUpperCase asciiCase (sectionName exampleTranslationUtils ''en'' eventsSection),
                                 toUpperCase asciiCase (linkName exampleTranslationUtils ''en'' link)],
                 title = linkName exampleTranslationUtils ''en'' link\<rparr>)
       (entries (section_social eventsSection))"
    by (rule conjunct1)
  also have "\<dots> =
     [\<lparr>description = ''Events'', data = LinkData ''Calendar'',
       icon = IconObject ''md-open'' ''ionicon'',
       matchedTerms = [''EVENTS'', ''CALENDAR''], title = ''Calendar''\<rparr>,
      \<lparr>description = ''Events'', data = LinkData ''Twitter'',
       icon = IconObject ''social-twitter'' ''ionicon'',
       matchedTerms = [''EVENTS'', ''TWITTER''], title = ''Twitter''\<rparr>]"
    by (simp add: example_defs)
  finally show ?thesis
    using h1 h2 by simp
qed

text \<open>
  Claim C2. When the upper-cased display name of a section does not contain the search
  terms, the visit pushes nothing onto \<^verbatim>\<open>categories\<close>, and onto \<^verbatim>\<open>links\<close> one result for
  exactly those entries of \<^verbatim>\<open>links\<close> and of \<^verbatim>\<open>social\<close> whose own upper-cased name
  contains the search terms; \<^verbatim>\<open>matchedTerms\<close> of each is the upper-cased link name alone.
  The \<^verbatim>\<open>categories\<close> output has one result for each visited section whose name matches,
  and no other.
\<close>

theorem other_section_pushes_matching_links:
  assumes "section \<in> set (forestSections linkSections)"
    and "\<not> sublist searchTerms (toUpperCase js (sectionName tu language section))"
  shows "linksPushedFor js tu language searchTerms section =
     map (\<lambda>link. \<lparr>description = sectionName tu language section, data = LinkData link,
                 icon = IconObject ''md-open'' ''ionicon'',
                 matchedTerms = [toUpperCase js (linkName tu language link)],
                 title = linkName tu language link\<rparr>)
       (filter (\<lambda>link. sublist searchTerms (toUpperCase js (linkName tu language link)))
          (entries (section_links section))) @
     map (\<lambda>link. \<lparr>description = sectionName tu language section, data = LinkData link,
                 icon = IconObject (getSocialMediaIconName js (orEmpty (getEnglishName tu link)))
                          ''ionicon'',
                 matchedTerms = [toUpperCase js (linkName tu language link)],
                 title = linkName tu language link\<rparr>)
       (filter (\<lambda>link. sublist searchTerms (toUpperCase js (linkName tu language link)))
          (entries (section_social section)))
   \<and> (\<forall>r \<in> set (linksPushedFor js tu language searchTerms section). length (matchedTerms r) = 1)
   \<and> categoriesPushedFor js tu language searchTerms h' section = []
   \<and> (\<exists>k < length (sectionsToSearch (traversal js tu language searchTerms linkSections h)).
        sectionsToSearch (traversal js tu language searchTerms linkSections h) ! k = section \<and>
        links (traversal js tu language searchTerms linkSections h) =
          concat (map (linksPushedFor js tu language searchTerms)
            (take k (sectionsToSearch (traversal js tu language searchTerms linkSections h)))) @
          linksPushedFor js tu language searchTerms section @
          concat (map (linksPushedFor js tu language searchTerms)
            (drop (Suc k) (sectionsToSearch (traversal js tu language searchTerms linkSections h)))))
   \<and> map title (categories (traversal js tu language searchTerms linkSections h)) =
       map (sectionName tu language)
         (filter (\<lambda>s. sublist searchTerms (toUpperCase js (sectionName tu language s)))
            (sectionsToSearch (traversal js tu language searchTerms linkSections h)))"
proof -
  have one: "\<forall>r \<in> set (linksPushedFor js tu language searchTerms section). length (matchedTerms r) = 1"
    by (auto simp: linksPushedFor_other [OF assms(2)])
  have none: "categoriesPushedFor js tu language searchTerms h' section = []"
    using assms(2) by (simp add: categoriesPushedFor_eq)
  show ?thesis
    by (intro conjI linksPushedFor_other one none traversal_visits traversal_titles assms)
qed

theorem other_section_pushes_matching_links_witness:
  "eventsSection \<in> set (forestSections [eventsSection]) \<and>
   \<not> sublist ''TWIT'' (toUpperCase asciiCase (sectionName exampleTranslationUtils ''en'' eventsSection)) \<and>
   linksPushedFor asciiCase exampleTranslationUtils ''en'' ''TWIT'' eventsSection =
     [\<lparr>description = ''Events'', data = LinkData ''Twitter'',
       icon = IconObject ''social-twitter'' ''ionicon'',
       matchedTerms = [''TWITTER''], title = ''Twitter''\<rparr>] \<and>
   categoriesPushedFor asciiCase exampleTranslationUtils ''en'' ''TWIT'' exampleIds eventsSection = []"
proof -
  have h1: "eventsSection \<in> set (forestSections [eventsSection])"
    by (simp add: forestSections_def eventsSection_def)
  have "\<not> 0 \<le> indexOf (toUpperCase asciiCase (sectionName exampleTranslationUtils ''en'' eventsSection)) ''TWIT''"
    by (simp add: example_defs)
  then have h2: "\<not> sublist ''TWIT''
      (toUpperCase asciiCase (sectionName exampleTranslationUtils ''en'' eventsSection))"
    unfolding indexOf_nonneg_iff .
  have m: "filter (\<lambda>link. sublist ''TWIT'' (toUpperCase asciiCase (linkName exampleTranslationUtils ''en'' link)))
      [''Calendar''] = []"
    "filter (\<lambda>link. sublist ''TWIT'' (toUpperCase asciiCase (linkName exampleTranslationUtils ''en'' link)))
      [''Twitter''] = [''Twitter'']"
    by (simp_all add: indexOf_nonneg_iff [symmetric] example_defs)
  note inst = other_section_pushes_matching_links [OF h1 h2, of exampleIds exampleIds]
  from inst have "linksPushedFor asciiCase exampleTranslationUtils ''en'' ''TWIT'' eventsSection =
     map (\<lambda>link. \<lparr>description = sectionName exampleTranslationUtils ''en'' eventsSection,
                 data = LinkData link,
                 icon = IconObject ''md-open'' ''ionicon'',
                 matchedTerms = [toUpperCase asciiCase (linkName exampleTranslationUtils ''en'' link)],
                 title = linkName exampleTranslationUtils ''en'' link\<rparr>)
       (filter (\<lambda>link. sublist ''TWIT'' (toUpperCase asciiCase (linkName exampleTranslationUtils ''en'' link)))
          (entries (section_links eventsSection))) @
     map (\<lambda>link. \<lparr>description = sectionName exampleTranslationUtils ''en'' eventsSection,
                 data = LinkData link,
                 icon = IconObject (getSocialMediaIconName asciiCase
                          (orEmpty (getEnglishName exampleTranslationUtils link))) ''ionicon'',
                 matchedTerms = [toUpperCase asciiCase (linkName exampleTranslationUtils ''en'' link)],
                 title = linkName exampleTranslationUtils ''en'' link\<rparr>)
       (filter (\<lambda>link. sublist ''TWIT'' (toUpperCase asciiCase (linkName exampleTranslationUtils ''en'' link)))
          (entries (section_social eventsSection)))"
    by (rule conjunct1)
  also have "\<dots> =
     [\<lparr>description = ''Events'', data = LinkData ''Twitter'',
       icon = IconObject ''social-twitter'' ''ionicon'',
       matchedTerms = [''TWITTER''], title = ''Twitter''\<rparr>]"
    using m by (simp add: eventsSection_def entries_def) (simp add: example_defs)
  finally have a: "linksPushedFor asciiCase exampleTranslationUtils ''en'' ''TWIT'' eventsSection =
     [\<lparr>description = ''Events'', data = LinkData ''Twitter'',
       icon = IconObject ''social-twitter'' ''ionicon'',
       matchedTerms = [''TWITTER''], title = ''Twitter''\<rparr>]" .
  from inst have "categoriesPushedFor asciiCase exampleTranslationUtils ''en'' ''TWIT'' exampleIds eventsSection = []"
    by blast
  with a h1 h2 show ?thesis by simp
qed

text \<open>
  The visit compares names in the upper case the runtime gives them: with case mappings
  that know the accented letter, the query \<^verbatim>\<open>[0xE9]v[0xE9]nements\<close> matches the section
  named \<^verbatim>\<open>[0xC9]v[0xE9]nements\<close>, and the category and its link are pushed.
\<close>

lemmas accent_defs =
  exampleTranslationUtils_def exampleTranslations_def exampleIds_def
  initialState_def searchSection_def pushAllLinks_def pushAllSocial_def
  pushMatchingLinks_def pushMatchingSocial_def pushLink_def prefixIds_def entries_def
  orEmpty_def accentCase_def getSocialMediaIconName_def sectionName_def linkName_def Let_def

lemma accented_section_matches:
  "traversal accentCase exampleTranslationUtils ''fr''
     (toUpperCase accentCase (CHR 0xE9 # CHR ''v'' # CHR 0xE9 # ''nements''))
     [accentedSection] exampleIds =
   \<lparr>sectionsToSearch = [accentedSection],
    links =
      [\<lparr>description = CHR 0xC9 # CHR ''v'' # CHR 0xE9 # ''nements'',
        data = LinkData (''Caf'' @ [CHR 0xE9]),
        icon = IconObject ''md-open'' ''ionicon'',
        matchedTerms = [CHR 0xC9 # CHR ''V'' # CHR 0xC9 # ''NEMENTS'', ''CAF'' @ [CHR 0xC9]],
        title = ''Caf'' @ [CHR 0xE9]\<rparr>],
    categories =
      [\<lparr>description = ''See related links'', data = IdData [],
        icon = SectionIcon (),
        matchedTerms = [CHR 0xC9 # CHR ''V'' # CHR 0xC9 # ''NEMENTS''],
        title = CHR 0xC9 # CHR ''v'' # CHR 0xE9 # ''nements''\<rparr>],
    ids = exampleIds\<rparr>"
  by (simp add: traversal_def searchLoop.simps accent_defs accentedSection_def)

section \<open>The two entry points\<close>

lemma getResults'_eq:
  "getResults' js tu language searchTerms linkSections h =
     ([external_links (getTranslations tu language) \<mapsto>
         links (traversal js tu language searchTerms linkSections h),
       useful_links (getTranslations tu language) \<mapsto>
         categories (traversal js tu language searchTerms linkSections h)],
      ids (traversal js tu language searchTerms linkSections h))"
  by (simp add: getResults'_def traversal_def Let_def)

text \<open>
  Claim C3, as the code has it. For a query that is null or the empty string
  \<^verbatim>\<open>getResults\<close> resolves at once with the empty object: no key is present in it, and
  neither \<^verbatim>\<open>Configuration.init\<close> nor \<^verbatim>\<open>Configuration.getConfig\<close> has been called.
\<close>

theorem empty_query_resolves_with_empty_object:
  "getResults js cfg tu language None = (Resolved Map.empty, []) \<and>
   getResults js cfg tu language (Some []) = (Resolved Map.empty, [])"
  by (simp add: getResults_def)

text \<open>
  The claim as the specification states it fails: for the null query the label of the
  external links is no key of the resolved mapping, so it is not mapped to the empty
  list.
\<close>

theorem empty_query_labels_absent:
  "lookupResolved (fst (getResults asciiCase exampleConfiguration exampleTranslationUtils ''en'' None))
     (external_links (getTranslations exampleTranslationUtils ''en'')) \<noteq> Some []"
  by (simp add: getResults_def lookupResolved_def)

text \<open>
  Claim C9. The mapping is built by two assignments, first \<^verbatim>\<open>links\<close> under the label of
  the external links, then \<^verbatim>\<open>categories\<close> under the label of the useful links. When the
  two labels are the same string, the second assignment replaces the first: the mapping
  has this one key, bound to \<^verbatim>\<open>categories\<close>.
\<close>

theorem second_label_overwrites_first:
  "fst (getResults' js tu language searchTerms linkSections h) =
     [external_links (getTranslations tu language) \<mapsto>
        links (traversal js tu language searchTerms linkSections h),
      useful_links (getTranslations tu language) \<mapsto>
        categories (traversal js tu language searchTerms linkSections h)]
   \<and> (external_links (getTranslations tu language) = useful_links (getTranslations tu language) \<longrightarrow>
        fst (getResults' js tu language searchTerms linkSections h) =
          [useful_links (getTranslations tu language) \<mapsto>
             categories (traversal js tu language searchTerms linkSections h)] \<and>
        dom (fst (getResults' js tu language searchTerms linkSections h)) =
          {useful_links (getTranslations tu language)})
   \<and> (external_links (getTranslations tu language) \<noteq> useful_links (getTranslations tu language) \<longrightarrow>
        fst (getResults' js tu language searchTerms linkSections h)
          (external_links (getTranslations tu language)) =
            Some (links (traversal js tu language searchTerms linkSections h)) \<and>
        fst (getResults' js tu language searchTerms linkSections h)
          (useful_links (getTranslations tu language)) =
            Some (categories (traversal js tu language searchTerms linkSections h)))"
  by (simp add: getResults'_eq)

lemma sameLabel_traversal:
  "traversal asciiCase sameLabelTranslationUtils ''en'' ''EVENTS'' [eventsSection] exampleIds =
   \<lparr>sectionsToSearch = [eventsSection, academicSection, deadlinesSection],
    links =
      [\<lparr>description = ''Events'', data = LinkData ''Calendar'',
        icon = IconObject ''md-open'' ''ionicon'',
        matchedTerms = [''EVENTS'', ''CALENDAR''], title = ''Calendar''\<rparr>,
       \<lparr>description = ''Events'', data = LinkData ''Twitter'',
        icon = IconObject ''social-twitter'' ''ionicon'',
        matchedTerms = [''EVENTS'', ''TWITTER''], title = ''Twitter''\<rparr>],
    categories =
      [\<lparr>description = ''See related links'', data = IdData ''events'',
        icon = SectionIcon (), matchedTerms = [''EVENTS''], title = ''Events''\<rparr>],
    ids = exampleIds(1 := ''events-academic'', 2 := ''events-academic-deadlines'')\<rparr>"
  by (simp add: traversal_def searchLoop.simps example_defs)

theorem second_label_overwrites_first_witness:
  "external_links (getTranslations sameLabelTranslationUtils ''en'') =
     useful_links (getTranslations sameLabelTranslationUtils ''en'') \<and>
   fst (getResults' asciiCase sameLabelTranslationUtils ''en'' ''EVENTS'' [eventsSection] exampleIds) =
     [''Links'' \<mapsto>
        [\<lparr>description = ''See related links'', data = IdData ''events'',
          icon = SectionIcon (), matchedTerms = [''EVENTS''], title = ''Events''\<rparr>]]"
proof -
  have h: "external_links (getTranslations sameLabelTranslationUtils ''en'') =
     useful_links (getTranslations sameLabelTranslationUtils ''en'')"
    by (simp add: sameLabelTranslationUtils_def)
  have u: "useful_links (getTranslations sameLabelTranslationUtils ''en'') = ''Links''"
    by (simp add: sameLabelTranslationUtils_def)
  from second_label_overwrites_first
    [of asciiCase sameLabelTranslationUtils "''en''" "''EVENTS''" "[eventsSection]" exampleIds] h
  have "fst (getResults' asciiCase sameLabelTranslationUtils ''en'' ''EVENTS'' [eventsSection] exampleIds) =
      [useful_links (getTranslations sameLabelTranslationUtils ''en'') \<mapsto>
         categories (traversal asciiCase sameLabelTranslationUtils ''en'' ''EVENTS'' [eventsSection]
           exampleIds)]"
    by blast
  with h show ?thesis
    by (simp add: u sameLabel_traversal)
qed

section \<open>Matched terms\<close>

lemma linksPushedFor_matchedTerms:
  assumes "r \<in> set (linksPushedFor js tu language searchTerms section)"
  shows "\<exists>t \<in> set (matchedTerms r). (\<exists>name. t = toUpperCase js name) \<and> sublist searchTerms t"
proof (cases "sublist searchTerms (toUpperCase js (sectionName tu language section))")
  case True
  from assms have "toUpperCase js (sectionName tu language section) \<in> set (matchedTerms r)"
    by (auto simp: linksPushedFor_matching [OF True])
  with True show ?thesis by blast
next
  case False
  from assms obtain link where "sublist searchTerms (toUpperCase js (linkName tu language link))"
    and "matchedTerms r = [toUpperCase js (linkName tu language link)]"
    by (auto simp: linksPushedFor_other [OF False])
  then show ?thesis by auto
qed

lemma categoriesPushedFor_matchedTerms:
  assumes "r \<in> set (categoriesPushedFor js tu language searchTerms h section)"
  shows "\<exists>t \<in> set (matchedTerms r). (\<exists>name. t = toUpperCase js name) \<and> sublist searchTerms t"
  using assms by (auto simp: categoriesPushedFor_eq split: if_splits)

lemma searchLoop_matchedTerms:
  "r \<in> set (links (searchLoop js tu language searchTerms i st)) \<union>
        set (categories (searchLoop js tu language searchTerms i st)) \<Longrightarrow>
   r \<notin> set (links st) \<union> set (categories st) \<Longrightarrow>
   \<exists>t \<in> set (matchedTerms r). (\<exists>name. t = toUpperCase js name) \<and> sublist searchTerms t"
proof (induction js tu language searchTerms i st rule: searchLoop.induct)
  case (1 js tu language searchTerms i st)
  show ?case
  proof (cases "i < length (sectionsToSearch st)")
    case True
    let ?s = "sectionsToSearch st ! i"
    let ?st = "searchSection js tu language searchTerms ?s st"
    note less = True
    show ?thesis
    proof (cases "r \<in> set (links ?st) \<union> set (categories ?st)")
      case True
      with 1(3) have "r \<in> set (linksPushedFor js tu language searchTerms ?s) \<or>
          r \<in> set (categoriesPushedFor js tu language searchTerms (ids st) ?s)"
        by (auto simp: links_searchSection categories_searchSection)
      then show ?thesis
      proof
        assume "r \<in> set (linksPushedFor js tu language searchTerms ?s)"
        then show ?thesis by (rule linksPushedFor_matchedTerms)
      next
        assume "r \<in> set (categoriesPushedFor js tu language searchTerms (ids st) ?s)"
        then show ?thesis by (rule categoriesPushedFor_matchedTerms)
      qed
    next
      case False
      have "searchLoop js tu language searchTerms i st =
          searchLoop js tu language searchTerms (i + 1) ?st"
        using less by (simp add: searchLoop_step)
      with 1(2) have "r \<in> set (links (searchLoop js tu language searchTerms (i + 1) ?st)) \<union>
          set (categories (searchLoop js tu language searchTerms (i + 1) ?st))"
        by simp
      then show ?thesis
        using False by (rule 1(1) [OF less])
    qed
  next
    case False
    then have "searchLoop js tu language searchTerms i st = st"
      by (rule searchLoop_stop)
    with 1(2,3) show ?thesis
      by simp
  qed
qed

lemma traversal_matchedTerms:
  assumes "r \<in> set (links (traversal js tu language searchTerms linkSections h)) \<union>
               set (categories (traversal js tu language searchTerms linkSections h))"
  shows "\<exists>t \<in> set (matchedTerms r). (\<exists>name. t = toUpperCase js name) \<and> sublist searchTerms t"
proof (rule searchLoop_matchedTerms)
  show "r \<in> set (links (searchLoop js tu language searchTerms 0 (initialState linkSections h))) \<union>
      set (categories (searchLoop js tu language searchTerms 0 (initialState linkSections h)))"
    using assms by (simp add: traversal_def)
  show "r \<notin> set (links (initialState linkSections h)) \<union>
      set (categories (initialState linkSections h))"
    by (simp add: initialState_def)
qed

text \<open>
  Claim C5. When \<^verbatim>\<open>getResults\<close> resolves for a non-empty query, every result in either
  list of the mapping has among its \<^verbatim>\<open>matchedTerms\<close> an upper-cased name that contains
  the upper-cased query.
\<close>

theorem matchedTerms_contain_query:
  assumes "terms \<noteq> []"
    and "fst (getResults js cfg tu language (Some terms)) = Resolved results"
    and "results label = Some rs"
    and "r \<in> set rs"
  shows "\<exists>t \<in> set (matchedTerms r).
           (\<exists>name. t = toUpperCase js name) \<and> sublist (toUpperCase js terms) t"
proof -
  from assms(1,2) obtain linkSections h where
    "results = fst (getResults' js tu language (toUpperCase js terms) linkSections h)"
    by (auto simp: getResults_def Let_def split: option.splits sum.splits)
  with assms(3) have "rs = links (traversal js tu language (toUpperCase js terms) linkSections h) \<or>
      rs = categories (traversal js tu language (toUpperCase js terms) linkSections h)"
    by (auto simp: getResults'_eq split: if_splits)
  with assms(4) show ?thesis
    using traversal_matchedTerms [of r js tu language "toUpperCase js terms" linkSections h]
    by blast
qed

lemma example_traversal:
  "traversal asciiCase exampleTranslationUtils ''en'' ''DEAD'' [eventsSection] exampleIds =
   \<lparr>sectionsToSearch = [eventsSection, academicSection, deadlinesSection],
    links =
      [\<lparr>description = ''Deadlines'', data = LinkData ''Drop dates'',
        icon = IconObject ''md-open'' ''ionicon'',
        matchedTerms = [''DEADLINES'', ''DROP DATES''], title = ''Drop dates''\<rparr>],
    categories =
       [\<lparr>description = ''See related links'', data = IdData ''events-academic-deadlines'',
         icon = SectionIcon (), matchedTerms = [''DEADLINES''], title = ''Deadlines''\<rparr>],
    ids = exampleIds(1 := ''events-academic'', 2 := ''events-academic-deadlines'')\<rparr>"
  by (simp add: traversal_def searchLoop.simps example_defs)

lemma example_getResults:
  "fst (getResults asciiCase exampleConfiguration exampleTranslationUtils ''en'' (Some ''dead'')) =
     Resolved
      [''External links'' \<mapsto>
         [\<lparr>description = ''Deadlines'', data = LinkData ''Drop dates'',
           icon = IconObject ''md-open'' ''ionicon'',
           matchedTerms = [''DEADLINES'', ''DROP DATES''], title = ''Drop dates''\<rparr>],
       ''Useful links'' \<mapsto>
         [\<lparr>description = ''See related links'', data = IdData ''events-academic-deadlines'',
           icon = SectionIcon (), matchedTerms = [''DEADLINES''], title = ''Deadlines''\<rparr>]]"
proof -
  have u: "toUpperCase asciiCase ''dead'' = ''DEAD''"
    by (simp add: asciiCase_def)
  have t: "getTranslations exampleTranslationUtils ''en'' = exampleTranslations"
    by (simp add: exampleTranslationUtils_def)
  show ?thesis
    by (simp add: getResults_def exampleConfiguration_def getResults'_eq u example_traversal t)
      (simp add: exampleTranslations_def)
qed

theorem matchedTerms_contain_query_witness:
  "''dead'' \<noteq> [] \<and>
   (\<exists>t \<in> set [''DEADLINES'', ''DROP DATES''].
      (\<exists>name. t = toUpperCase asciiCase name) \<and> sublist (toUpperCase asciiCase ''dead'') t)"
proof -
  let ?r = "\<lparr>description = ''Deadlines'', data = LinkData ''Drop dates'',
           icon = IconObject ''md-open'' ''ionicon'' :: unit result_icon,
           matchedTerms = [''DEADLINES'', ''DROP DATES''], title = ''Drop dates''\<rparr>"
  have h: "''dead'' \<noteq> []" by simp
  from matchedTerms_contain_query [OF h example_getResults, of "''External links''" "[?r]" ?r]
  show ?thesis
    by simp
qed

section \<open>The ids the traversal leaves\<close>

lemma traversal_ids_frame:
  "r \<notin> set (forestRefs (concat (map subcategories linkSections))) \<Longrightarrow>
   ids (traversal js tu language searchTerms linkSections h) r = h r"
  using ids_searchLoop_frame [of 0 "initialState linkSections h" r js tu language searchTerms]
  by (simp add: traversal_def initialState_def)

lemma traversal_ids_root:
  "distinct (forestRefs linkSections) \<Longrightarrow> s \<in> set linkSections \<Longrightarrow>
   ids (traversal js tu language searchTerms linkSections h) (section_ref s) = h (section_ref s)"
  using ids_searchLoop_root [of 0 "initialState linkSections h" s js tu language searchTerms]
  by (simp add: traversal_def initialState_def)

lemma traversal_ids_child:
  "distinct (forestRefs linkSections) \<Longrightarrow> p \<in> set (forestSections linkSections) \<Longrightarrow>
   c \<in> set (subcategories p) \<Longrightarrow>
   ids (traversal js tu language searchTerms linkSections h) (section_ref c) =
     ids (traversal js tu language searchTerms linkSections h) (section_ref p) @ ''-'' @
     h (section_ref c)"
  using ids_searchLoop_children [of 0 "initialState linkSections h" p c js tu language searchTerms]
  by (simp add: traversal_def initialState_def)

lemma traversal_categories:
  "distinct (forestRefs linkSections) \<Longrightarrow>
   categories (traversal js tu language searchTerms linkSections h) =
     concat (map (categoriesPushedFor js tu language searchTerms
                    (ids (traversal js tu language searchTerms linkSections h)))
       (sectionsToSearch (traversal js tu language searchTerms linkSections h)))"
  using categories_searchLoop [of 0 "initialState linkSections h" js tu language searchTerms]
  by (simp add: traversal_def initialState_def)

lemma traversal_fixpoint:
  "sectionsToSearch (traversal js tu language searchTerms linkSections h) =
     linkSections @ concat (map subcategories
       (sectionsToSearch (traversal js tu language searchTerms linkSections h)))"
  using sectionsToSearch_searchLoop_fixpoint [of 0 "initialState linkSections h" js tu language searchTerms]
  by (simp add: traversal_def initialState_def)

lemma child_in_forest:
  "p \<in> set (forestSections secs) \<Longrightarrow> c \<in> set (subcategories p) \<Longrightarrow>
   c \<in> set (forestSections secs)"
proof -
  assume "p \<in> set (forestSections secs)" and c: "c \<in> set (subcategories p)"
  then obtain x where x: "x \<in> set secs" and "p \<in> set (allSections x)"
    by (auto simp: forestSections_def)
  with c have "c \<in> set (forestSections (subcategories x))"
    by (simp add: child_in_forestSections)
  then have "c \<in> set (allSections x)"
    by (simp add: allSections_eq [of x] forestSections_def)
  with x show ?thesis
    by (auto simp: forestSections_def)
qed

lemma root_in_forest: "s \<in> set secs \<Longrightarrow> s \<in> set (forestSections secs)"
  using self_in_allSections by (auto simp: forestSections_def)

lemma dashJoin_Cons: "dashJoin (x # xs) = x @ concat (map (\<lambda>y. ''-'' @ y) xs)"
  by (induction xs arbitrary: x) simp_all

text \<open>
  Along a chain, each id is the id of the section above it, a dash, and the id the section
  had before the traversal.
\<close>

lemma chain_ids:
  assumes child: "\<And>p c. p \<in> set (forestSections roots) \<Longrightarrow> c \<in> set (subcategories p) \<Longrightarrow>
      F (section_ref c) = F (section_ref p) @ ''-'' @ h (section_ref c)"
  shows "chainAt secs path = Some chain \<Longrightarrow> chain \<noteq> [] \<Longrightarrow>
     set secs \<subseteq> set (forestSections roots) \<Longrightarrow>
     hd chain \<in> set secs \<and> last chain \<in> set (forestSections roots) \<and>
     F (section_ref (last chain)) =
       F (section_ref (hd chain)) @
       concat (map (\<lambda>y. ''-'' @ y) (map (\<lambda>s. h (section_ref s)) (tl chain)))"
proof (induction secs path arbitrary: chain rule: chainAt.induct)
  case (1 secs)
  then show ?case by simp
next
  case (2 secs j path)
  from 2(2) obtain rest where j: "j < length secs" and rest: "chainAt (subcategories (secs ! j)) path = Some rest"
    and chain: "chain = secs ! j # rest"
    by (auto split: if_splits)
  from j 2(4) have top: "secs ! j \<in> set secs" "secs ! j \<in> set (forestSections roots)"
    by auto
  show ?case
  proof (cases "rest = []")
    case True
    with chain top show ?thesis by simp
  next
    case False
    have "set (subcategories (secs ! j)) \<subseteq> set (forestSections roots)"
      using top(2) child_in_forest by blast
    from 2(1) [OF j rest False this]
    have hd: "hd rest \<in> set (subcategories (secs ! j))"
      and last: "last rest \<in> set (forestSections roots)"
      and ids: "F (section_ref (last rest)) =
         F (section_ref (hd rest)) @
         concat (map (\<lambda>y. ''-'' @ y) (map (\<lambda>s. h (section_ref s)) (tl rest)))"
      by simp_all
    from child [OF top(2) hd]
    have "F (section_ref (hd rest)) = F (section_ref (secs ! j)) @ ''-'' @ h (section_ref (hd rest))" .
    with ids have "F (section_ref (last rest)) =
        F (section_ref (secs ! j)) @
        concat (map (\<lambda>y. ''-'' @ y) (map (\<lambda>s. h (section_ref s)) (hd rest # tl rest)))"
      by simp
    with False chain top last show ?thesis
      by simp
  qed
qed

lemma traversal_chain_id:
  assumes "distinct (forestRefs linkSections)"
    and "chainAt linkSections path = Some chain"
    and "chain \<noteq> []"
  shows "last chain \<in> set (forestSections linkSections)"
    and "ids (traversal js tu language searchTerms linkSections h) (section_ref (last chain)) =
       dashJoin (map (\<lambda>s. h (section_ref s)) chain)"
proof -
  let ?F = "ids (traversal js tu language searchTerms linkSections h)"
  have "hd chain \<in> set linkSections \<and> last chain \<in> set (forestSections linkSections) \<and>
     ?F (section_ref (last chain)) =
       ?F (section_ref (hd chain)) @
       concat (map (\<lambda>y. ''-'' @ y) (map (\<lambda>s. h (section_ref s)) (tl chain)))"
  proof (rule chain_ids [OF _ assms(2,3)])
    show "set linkSections \<subseteq> set (forestSections linkSections)"
      using root_in_forest by blast
  next
    fix p c
    assume "p \<in> set (forestSections linkSections)" "c \<in> set (subcategories p)"
    with assms(1) show "?F (section_ref c) = ?F (section_ref p) @ ''-'' @ h (section_ref c)"
      by (rule traversal_ids_child)
  qed
  moreover from this assms(1) have "?F (section_ref (hd chain)) = h (section_ref (hd chain))"
    by (simp add: traversal_ids_root)
  ultimately show "last chain \<in> set (forestSections linkSections)"
    and "?F (section_ref (last chain)) = dashJoin (map (\<lambda>s. h (section_ref s)) chain)"
    using assms(3) by (cases chain; simp add: dashJoin_Cons)+
qed

lemma children_after_parent:
  "i \<le> k \<Longrightarrow> k < length (sectionsToSearch (searchLoop js tu language searchTerms i st)) \<Longrightarrow>
   c \<in> set (subcategories (sectionsToSearch (searchLoop js tu language searchTerms i st) ! k)) \<Longrightarrow>
   \<exists>m. k < m \<and> m < length (sectionsToSearch (searchLoop js tu language searchTerms i st)) \<and>
       sectionsToSearch (searchLoop js tu language searchTerms i st) ! m = c"
proof (induction js tu language searchTerms i st rule: searchLoop.induct)
  case (1 js tu language searchTerms i st)
  show ?case
  proof (cases "i < length (sectionsToSearch st)")
    case True
    let ?s = "sectionsToSearch st ! i"
    let ?st = "searchSection js tu language searchTerms ?s st"
    let ?L = "searchLoop js tu language searchTerms (i + 1) ?st"
    have loop: "searchLoop js tu language searchTerms i st = ?L"
      using True by (simp add: searchLoop_step)
    show ?thesis
    proof (cases "k = i")
      case False
      with 1(2) have "i + 1 \<le> k" by simp
      from 1(1) [OF True this] 1(3,4) show ?thesis
        by (simp add: loop)
    next
      case k: True
      have i: "i < length (sectionsToSearch ?st)"
        using True by (simp add: sectionsToSearch_searchSection)
      have "sectionsToSearch ?L ! i = ?s"
        using searchLoop_nth(1) [OF i, of js tu language searchTerms "i + 1"] True
        by (simp add: sectionsToSearch_searchSection nth_append)
      with 1(4) k have "c \<in> set (subcategories ?s)"
        by (simp add: loop)
      then obtain j where j: "j < length (subcategories ?s)" "subcategories ?s ! j = c"
        by (auto simp: in_set_conv_nth)
      let ?m = "length (sectionsToSearch st) + j"
      have m: "?m < length (sectionsToSearch ?st)"
        using j by (simp add: sectionsToSearch_searchSection)
      have "sectionsToSearch ?L ! ?m = c" "?m < length (sectionsToSearch ?L)"
        using searchLoop_nth [OF m, of js tu language searchTerms "i + 1"] j
        by (simp_all add: sectionsToSearch_searchSection)
      with True k show ?thesis
        unfolding loop by (intro exI [of _ ?m]) simp
    qed
  next
    case False
    with 1(2,3) show ?thesis
      by (simp add: searchLoop_stop)
  qed
qed

lemma traversal_children_after_parent:
  "k < length (sectionsToSearch (traversal js tu language searchTerms linkSections h)) \<Longrightarrow>
   c \<in> set (subcategories (sectionsToSearch (traversal js tu language searchTerms linkSections h) ! k)) \<Longrightarrow>
   \<exists>m. k < m \<and> m < length (sectionsToSearch (traversal js tu language searchTerms linkSections h)) \<and>
       sectionsToSearch (traversal js tu language searchTerms linkSections h) ! m = c"
  unfolding traversal_def by (rule children_after_parent) simp_all

text \<open>
  Claim C4. The work list is the top-level sections followed by the subcategories of each
  visited section, in the order of the visits, so the subcategories of a section come
  after it in the list and are visited however deep they lie. In a tree no object
  of which occurs twice, take the sections along a path from the top level down to some
  section. That section is visited, and when its name matches, the category result pushed
  for it carries as id the ids of the sections along the path, as they were before the
  traversal, joined by dashes.
\<close>

theorem nested_category_id_is_ancestor_chain:
  assumes "distinct (forestRefs linkSections)"
    and "chainAt linkSections path = Some chain"
    and "chain \<noteq> []"
  shows "last chain \<in> set (sectionsToSearch (traversal js tu language searchTerms linkSections h))
   \<and> sectionsToSearch (traversal js tu language searchTerms linkSections h) =
       linkSections @ concat (map subcategories
         (sectionsToSearch (traversal js tu language searchTerms linkSections h)))
   \<and> (\<forall>k < length (sectionsToSearch (traversal js tu language searchTerms linkSections h)).
        \<forall>c \<in> set (subcategories
                 (sectionsToSearch (traversal js tu language searchTerms linkSections h) ! k)).
        \<exists>m. k < m \<and>
            m < length (sectionsToSearch (traversal js tu language searchTerms linkSections h)) \<and>
            sectionsToSearch (traversal js tu language searchTerms linkSections h) ! m = c)
   \<and> (sublist searchTerms (toUpperCase js (sectionName tu language (last chain))) \<longrightarrow>
        \<lparr>description = see_related_links (getTranslations tu language),
         data = IdData (dashJoin (map (\<lambda>s. h (section_ref s)) chain)),
         icon = SectionIcon (section_icon (last chain)),
         matchedTerms = [toUpperCase js (sectionName tu language (last chain))],
         title = sectionName tu language (last chain)\<rparr>
        \<in> set (categories (traversal js tu language searchTerms linkSections h)))"
proof -
  let ?T = "traversal js tu language searchTerms linkSections h"
  have "last chain \<in> set (forestSections linkSections)"
    using assms by (rule traversal_chain_id(1))
  then have visited: "last chain \<in> set (sectionsToSearch ?T)"
    using traversal_mset [of js tu language searchTerms linkSections h] by (metis set_mset_mset)
  have id: "ids ?T (section_ref (last chain)) = dashJoin (map (\<lambda>s. h (section_ref s)) chain)"
    using assms by (rule traversal_chain_id(2))
  have pushed: "\<lparr>description = see_related_links (getTranslations tu language),
         data = IdData (dashJoin (map (\<lambda>s. h (section_ref s)) chain)),
         icon = SectionIcon (section_icon (last chain)),
         matchedTerms = [toUpperCase js (sectionName tu language (last chain))],
         title = sectionName tu language (last chain)\<rparr> \<in> set (categories ?T)"
    if "sublist searchTerms (toUpperCase js (sectionName tu language (last chain)))"
  proof -
    from that have "categoriesPushedFor js tu language searchTerms (ids ?T) (last chain) =
        [\<lparr>description = see_related_links (getTranslations tu language),
          data = IdData (dashJoin (map (\<lambda>s. h (section_ref s)) chain)),
          icon = SectionIcon (section_icon (last chain)),
          matchedTerms = [toUpperCase js (sectionName tu language (last chain))],
          title = sectionName tu language (last chain)\<rparr>]"
      by (simp add: categoriesPushedFor_eq id)
    with visited show ?thesis
      by (subst traversal_categories [OF assms(1)]) force
  qed
  show ?thesis
    using visited pushed traversal_fixpoint [of js tu language searchTerms linkSections h]
      traversal_children_after_parent [of _ js tu language searchTerms linkSections h]
    by blast
qed

lemma example_distinct: "distinct (forestRefs [eventsSection])"
  by (simp add: forestRefs_def forestSections_def eventsSection_def academicSection_def
      deadlinesSection_def)

lemma example_chain:
  "chainAt [eventsSection] [0, 0, 0] = Some [eventsSection, academicSection, deadlinesSection]"
  by (simp add: subcategories_def entries_def eventsSection_def academicSection_def)

theorem nested_category_id_is_ancestor_chain_witness:
  "distinct (forestRefs [eventsSection]) \<and>
   chainAt [eventsSection] [0, 0, 0] = Some [eventsSection, academicSection, deadlinesSection] \<and>
   sublist ''DEAD'' (toUpperCase asciiCase (sectionName exampleTranslationUtils ''en'' deadlinesSection)) \<and>
   \<lparr>description = ''See related links'', data = IdData ''events-academic-deadlines'',
    icon = SectionIcon (), matchedTerms = [''DEADLINES''], title = ''Deadlines''\<rparr>
     \<in> set (categories (traversal asciiCase exampleTranslationUtils ''en'' ''DEAD'' [eventsSection] exampleIds))"
proof -
  have ne: "[eventsSection, academicSection, deadlinesSection] \<noteq> []" by simp
  have "0 \<le> indexOf (toUpperCase asciiCase (sectionName exampleTranslationUtils ''en'' deadlinesSection)) ''DEAD''"
    by (simp add: example_defs)
  then have m: "sublist ''DEAD'' (toUpperCase asciiCase (sectionName exampleTranslationUtils ''en'' deadlinesSection))"
    unfolding indexOf_nonneg_iff .
  have v: "see_related_links (getTranslations exampleTranslationUtils ''en'') = ''See related links''"
    "dashJoin (map (\<lambda>s. exampleIds (section_ref s)) [eventsSection, academicSection, deadlinesSection]) =
       ''events-academic-deadlines''"
    "section_icon deadlinesSection = ()"
    "toUpperCase asciiCase (sectionName exampleTranslationUtils ''en'' deadlinesSection) = ''DEADLINES''"
    "sectionName exampleTranslationUtils ''en'' deadlinesSection = ''Deadlines''"
    "toUpperCase asciiCase ''Deadlines'' = ''DEADLINES''"
    by (simp_all add: example_defs)
  note inst = nested_category_id_is_ancestor_chain [OF example_distinct example_chain ne,
      where searchTerms = "''DEAD''" and tu = exampleTranslationUtils and language = "''en''"
        and h = exampleIds]
  have l: "last [eventsSection, academicSection, deadlinesSection] = deadlinesSection"
    by simp
  note pushed = inst [THEN conjunct2, THEN conjunct2, THEN conjunct2, THEN mp, unfolded l, OF m]
  have "\<lparr>description = ''See related links'', data = IdData ''events-academic-deadlines'',
    icon = SectionIcon (), matchedTerms = [''DEADLINES''], title = ''Deadlines''\<rparr>
     \<in> set (categories (traversal asciiCase exampleTranslationUtils ''en'' ''DEAD'' [eventsSection] exampleIds))"
    using pushed unfolding v .
  with example_distinct example_chain m show ?thesis
    by simp
qed

lemma snd_getResults':
  "snd (getResults' js tu language searchTerms linkSections h) =
     ids (traversal js tu language searchTerms linkSections h)"
  by (simp add: getResults'_eq)

text \<open>
  Claim C7. The sections of the tree are values that the traversal only reads; what it
  assigns to is the \<^verbatim>\<open>id\<close> field of subcategories, so its effect on the tree is the
  store of the ids it returns. In a tree no object of which occurs twice: the id of an
  object that is no subcategory in the tree is unchanged; the id of a subcategory becomes
  the new id of its parent, a dash, and its own old id. A second traversal of the same
  tree starts from these ids and prefixes every subcategory id again, so the ids after
  the second run differ from those after the first: a subcategory \<open>c\<close> of a top-level
  section \<open>p\<close> has the id \<^verbatim>\<open>p-c\<close> after one run and \<^verbatim>\<open>p-p-c\<close> after two.
\<close>

theorem traversal_rewrites_subcategory_ids:
  assumes "distinct (forestRefs linkSections)"
  shows "(\<forall>r. r \<notin> set (forestRefs (concat (map subcategories linkSections))) \<longrightarrow>
            snd (getResults' js tu language searchTerms linkSections h) r = h r)
   \<and> (\<forall>p \<in> set (forestSections linkSections). \<forall>c \<in> set (subcategories p).
        snd (getResults' js tu language searchTerms linkSections h) (section_ref c) =
          snd (getResults' js tu language searchTerms linkSections h) (section_ref p) @ ''-'' @
          h (section_ref c) \<and>
        snd (getResults' js tu' language' searchTerms' linkSections
              (snd (getResults' js tu language searchTerms linkSections h))) (section_ref c) =
          snd (getResults' js tu' language' searchTerms' linkSections
              (snd (getResults' js tu language searchTerms linkSections h))) (section_ref p) @ ''-'' @
          snd (getResults' js tu language searchTerms linkSections h) (section_ref c) \<and>
        snd (getResults' js tu' language' searchTerms' linkSections
              (snd (getResults' js tu language searchTerms linkSections h))) (section_ref c) \<noteq>
          snd (getResults' js tu language searchTerms linkSections h) (section_ref c))
   \<and> (\<forall>p \<in> set linkSections. \<forall>c \<in> set (subcategories p).
        snd (getResults' js tu language searchTerms linkSections h) (section_ref c) =
          h (section_ref p) @ ''-'' @ h (section_ref c) \<and>
        snd (getResults' js tu' language' searchTerms' linkSections
              (snd (getResults' js tu language searchTerms linkSections h))) (section_ref c) =
          h (section_ref p) @ ''-'' @ h (section_ref p) @ ''-'' @ h (section_ref c))"
proof -
  let ?h1 = "ids (traversal js tu language searchTerms linkSections h)"
  let ?h2 = "ids (traversal js tu' language' searchTerms' linkSections ?h1)"
  have frame: "?h1 r = h r"
    if "r \<notin> set (forestRefs (concat (map subcategories linkSections)))" for r
    using that by (rule traversal_ids_frame)
  have first: "?h1 (section_ref c) = ?h1 (section_ref p) @ ''-'' @ h (section_ref c)"
    if "p \<in> set (forestSections linkSections)" "c \<in> set (subcategories p)" for p c
    using assms that by (rule traversal_ids_child)
  have second: "?h2 (section_ref c) = ?h2 (section_ref p) @ ''-'' @ ?h1 (section_ref c)"
    if "p \<in> set (forestSections linkSections)" "c \<in> set (subcategories p)" for p c
    using assms that by (rule traversal_ids_child)
  have changed: "?h2 (section_ref c) \<noteq> ?h1 (section_ref c)"
    if "p \<in> set (forestSections linkSections)" "c \<in> set (subcategories p)" for p c
  proof -
    have "length (?h2 (section_ref c)) =
        length (?h2 (section_ref p)) + 1 + length (?h1 (section_ref c))"
      using second [OF that] by simp
    then show ?thesis by auto
  qed
  have root1: "?h1 (section_ref p) = h (section_ref p)" if "p \<in> set linkSections" for p
    using assms that by (rule traversal_ids_root)
  have root2: "?h2 (section_ref p) = h (section_ref p)" if "p \<in> set linkSections" for p
    using traversal_ids_root [OF assms that, of js tu' language' searchTerms' ?h1] root1 [OF that]
    by simp
  have top1: "?h1 (section_ref c) = h (section_ref p) @ ''-'' @ h (section_ref c)"
    if "p \<in> set linkSections" "c \<in> set (subcategories p)" for p c
    using first [OF root_in_forest [OF that(1)] that(2)] root1 [OF that(1)] by simp
  have top2: "?h2 (section_ref c) =
      h (section_ref p) @ ''-'' @ h (section_ref p) @ ''-'' @ h (section_ref c)"
    if "p \<in> set linkSections" "c \<in> set (subcategories p)" for p c
    using second [OF root_in_forest [OF that(1)] that(2)] root2 [OF that(1)] top1 [OF that]
    by simp
  show ?thesis
    unfolding snd_getResults'
    by (intro conjI allI ballI impI frame first second changed top1 top2) assumption+
qed

lemma example_second_traversal:
  "ids (traversal asciiCase exampleTranslationUtils ''en'' ''EVENTS'' [eventsSection]
     (exampleIds(1 := ''events-academic'', 2 := ''events-academic-deadlines''))) =
   exampleIds(1 := ''events-events-academic'',
              2 := ''events-events-academic-events-academic-deadlines'')"
  by (simp add: traversal_def searchLoop.simps example_defs)

theorem traversal_rewrites_subcategory_ids_witness:
  "distinct (forestRefs [eventsSection]) \<and>
   snd (getResults' asciiCase exampleTranslationUtils ''en'' ''EVENTS'' [eventsSection] exampleIds) 1 =
     ''events-academic'' \<and>
   snd (getResults' asciiCase exampleTranslationUtils ''en'' ''EVENTS'' [eventsSection]
     (snd (getResults' asciiCase exampleTranslationUtils ''en'' ''EVENTS'' [eventsSection] exampleIds))) 1 =
     ''events-events-academic''"
proof -
  have p: "eventsSection \<in> set [eventsSection]" by simp
  have c: "academicSection \<in> set (subcategories eventsSection)"
    by (simp add: subcategories_def entries_def eventsSection_def)
  have v: "section_ref academicSection = 1" "exampleIds (section_ref eventsSection) = ''events''"
    "exampleIds (section_ref academicSection) = ''academic''" "exampleIds (Suc 0) = ''academic''"
    by (simp_all add: academicSection_def eventsSection_def exampleIds_def)
  note inst = traversal_rewrites_subcategory_ids [OF example_distinct,
      where js = asciiCase and tu = exampleTranslationUtils and language = "''en''"
        and searchTerms = "''EVENTS''"
        and h = exampleIds and tu' = exampleTranslationUtils and language' = "''en''"
        and searchTerms' = "''EVENTS''"]
  note top = inst [THEN conjunct2, THEN conjunct2, THEN bspec, OF p, THEN bspec, OF c]
  from top show ?thesis
    using example_distinct by (simp add: v)
qed

section \<open>All or nothing\<close>

lemma categories_searchLoop_shape:
  "list_all2 (\<lambda>r s. \<exists>i. r =
       \<lparr>description = see_related_links (getTranslations tu language), data = IdData i,
        icon = SectionIcon (section_icon s),
        matchedTerms = [toUpperCase js (sectionName tu language s)],
        title = sectionName tu language s\<rparr>) (categories st) xs \<Longrightarrow>
   list_all2 (\<lambda>r s. \<exists>i. r =
       \<lparr>description = see_related_links (getTranslations tu language), data = IdData i,
        icon = SectionIcon (section_icon s),
        matchedTerms = [toUpperCase js (sectionName tu language s)],
        title = sectionName tu language s\<rparr>)
     (categories (searchLoop js tu language searchTerms i st))
     (xs @ filter (\<lambda>s. sublist searchTerms (toUpperCase js (sectionName tu language s)))
        (drop i (sectionsToSearch (searchLoop js tu language searchTerms i st))))"
proof (induction js tu language searchTerms i st arbitrary: xs rule: searchLoop.induct)
  case (1 js tu language searchTerms i st)
  let ?R = "\<lambda>r s. \<exists>i. r =
       \<lparr>description = see_related_links (getTranslations tu language), data = IdData i,
        icon = SectionIcon (section_icon s),
        matchedTerms = [toUpperCase js (sectionName tu language s)],
        title = sectionName tu language s\<rparr>"
  let ?M = "\<lambda>s. sublist searchTerms (toUpperCase js (sectionName tu language s))"
  show ?case
  proof (cases "i < length (sectionsToSearch st)")
    case True
    let ?s = "sectionsToSearch st ! i"
    let ?st = "searchSection js tu language searchTerms ?s st"
    let ?F = "sectionsToSearch (searchLoop js tu language searchTerms (Suc i) ?st)"
    have i: "i < length (sectionsToSearch ?st)"
      using True by (simp add: sectionsToSearch_searchSection)
    have "?F ! i = ?s" "i < length ?F"
      using searchLoop_nth [OF i, of js tu language searchTerms "Suc i"]
      by (simp_all add: sectionsToSearch_searchSection nth_append True)
    then have d: "drop i ?F = ?s # drop (Suc i) ?F"
      by (metis Cons_nth_drop_Suc)
    have "list_all2 ?R (categoriesPushedFor js tu language searchTerms (ids st) ?s) (filter ?M [?s])"
      by (auto simp: categoriesPushedFor_eq)
    with 1(2) have "list_all2 ?R (categories ?st) (xs @ filter ?M [?s])"
      by (simp only: categories_searchSection list_all2_appendI)
    from 1(1) [OF True this] show ?thesis
      using True by (cases "?M ?s") (simp_all add: searchLoop_step d)
  next
    case False
    with 1(2) show ?thesis by (simp add: searchLoop_stop)
  qed
qed

lemma traversal_categories_shape:
  "list_all2 (\<lambda>r s. \<exists>i. r =
       \<lparr>description = see_related_links (getTranslations tu language), data = IdData i,
        icon = SectionIcon (section_icon s),
        matchedTerms = [toUpperCase js (sectionName tu language s)],
        title = sectionName tu language s\<rparr>)
     (categories (traversal js tu language searchTerms linkSections h))
     (filter (\<lambda>s. sublist searchTerms (toUpperCase js (sectionName tu language s)))
        (sectionsToSearch (traversal js tu language searchTerms linkSections h)))"
  using categories_searchLoop_shape [of tu language js "initialState linkSections h" "[]"
      searchTerms 0]
  by (simp add: traversal_def initialState_def)

text \<open>
  Claim C6. For a non-empty query, a rejection of \<^verbatim>\<open>Configuration.init\<close> or of
  \<^verbatim>\<open>Configuration.getConfig\<close> rejects the search with the same error, and no mapping is
  produced. Once the tree has been obtained the search resolves, whatever the tree is
  (sections without a name, without \<^verbatim>\<open>links\<close>, \<^verbatim>\<open>social\<close> or \<^verbatim>\<open>categories\<close> included), and
  the mapping it resolves with is complete: the loop has visited every section of the
  tree once, a section before its subcategories; \<^verbatim>\<open>links\<close> holds what is pushed for each
  visited section, in the order of the visits, and \<^verbatim>\<open>categories\<close> holds one result for
  each visited section whose name matches.
\<close>

theorem getResults_all_or_nothing:
  assumes "terms \<noteq> []"
  shows "(init cfg = Some err \<longrightarrow>
            fst (getResults js cfg tu language (Some terms)) = Rejected err)
   \<and> (init cfg = None \<longrightarrow> getConfig cfg ''/useful_links.json'' = Inl err \<longrightarrow>
            fst (getResults js cfg tu language (Some terms)) = Rejected err)
   \<and> (init cfg = None \<longrightarrow> getConfig cfg ''/useful_links.json'' = Inr (linkSections, h) \<longrightarrow>
        (\<exists>order cats.
           fst (getResults js cfg tu language (Some terms)) =
             Resolved
               [external_links (getTranslations tu language) \<mapsto>
                  concat (map (linksPushedFor js tu language (toUpperCase js terms)) order),
                useful_links (getTranslations tu language) \<mapsto> cats] \<and>
           mset order = mset (forestSections linkSections) \<and>
           order = linkSections @ concat (map subcategories order) \<and>
           list_all2 (\<lambda>r s. \<exists>i. r =
               \<lparr>description = see_related_links (getTranslations tu language), data = IdData i,
                icon = SectionIcon (section_icon s),
                matchedTerms = [toUpperCase js (sectionName tu language s)],
                title = sectionName tu language s\<rparr>)
             cats
             (filter (\<lambda>s. sublist (toUpperCase js terms)
                         (toUpperCase js (sectionName tu language s))) order)))"
proof (intro conjI impI)
  assume "init cfg = Some err"
  with assms show "fst (getResults js cfg tu language (Some terms)) = Rejected err"
    by (simp add: getResults_def Let_def)
next
  assume "init cfg = None" "getConfig cfg ''/useful_links.json'' = Inl err"
  with assms show "fst (getResults js cfg tu language (Some terms)) = Rejected err"
    by (simp add: getResults_def Let_def)
next
  let ?T = "traversal js tu language (toUpperCase js terms) linkSections h"
  assume "init cfg = None" "getConfig cfg ''/useful_links.json'' = Inr (linkSections, h)"
  with assms have "fst (getResults js cfg tu language (Some terms)) =
      Resolved [external_links (getTranslations tu language) \<mapsto> links ?T,
                useful_links (getTranslations tu language) \<mapsto> categories ?T]"
    by (simp add: getResults_def Let_def getResults'_eq)
  then have "fst (getResults js cfg tu language (Some terms)) =
      Resolved [external_links (getTranslations tu language) \<mapsto>
                  concat (map (linksPushedFor js tu language (toUpperCase js terms))
                    (sectionsToSearch ?T)),
                useful_links (getTranslations tu language) \<mapsto> categories ?T]"
    by (simp only: traversal_links [symmetric])
  moreover have "mset (sectionsToSearch ?T) = mset (forestSections linkSections)"
    by (rule traversal_mset)
  moreover have "sectionsToSearch ?T = linkSections @ concat (map subcategories (sectionsToSearch ?T))"
    by (rule traversal_fixpoint)
  moreover note traversal_categories_shape [of tu language js "toUpperCase js terms" linkSections h]
  ultimately show "\<exists>order cats.
           fst (getResults js cfg tu language (Some terms)) =
             Resolved
               [external_links (getTranslations tu language) \<mapsto>
                  concat (map (linksPushedFor js tu language (toUpperCase js terms)) order),
                useful_links (getTranslations tu language) \<mapsto> cats] \<and>
           mset order = mset (forestSections linkSections) \<and>
           order = linkSections @ concat (map subcategories order) \<and>
           list_all2 (\<lambda>r s. \<exists>i. r =
               \<lparr>description = see_related_links (getTranslations tu language), data = IdData i,
                icon = SectionIcon (section_icon s),
                matchedTerms = [toUpperCase js (sectionName tu language s)],
                title = sectionName tu language s\<rparr>)
             cats
             (filter (\<lambda>s. sublist (toUpperCase js terms)
                         (toUpperCase js (sectionName tu language s))) order)"
    by (intro exI [of _ "sectionsToSearch ?T"] exI [of _ "categories ?T"] conjI)
qed

theorem getResults_all_or_nothing_witness:
  "''wifi'' \<noteq> [] \<and>
   fst (getResults asciiCase failingConfiguration exampleTranslationUtils ''en'' (Some ''wifi'')) =
     Rejected ''unavailable'' \<and>
   fst (getResults asciiCase bareConfiguration exampleTranslationUtils ''en'' (Some ''wifi'')) =
     Resolved [''External links'' \<mapsto> [], ''Useful links'' \<mapsto> []]"
proof -
  have h: "''wifi'' \<noteq> []" by simp
  have c: "init failingConfiguration = None"
    "getConfig failingConfiguration ''/useful_links.json'' = Inl ''unavailable''"
    "init bareConfiguration = None"
    "getConfig bareConfiguration ''/useful_links.json'' = Inr ([bareSection], exampleIds)"
    by (simp_all add: failingConfiguration_def bareConfiguration_def)
  note fails = getResults_all_or_nothing [OF h, where js = asciiCase
      and cfg = failingConfiguration and err = "''unavailable''"
      and tu = exampleTranslationUtils and language = "''en''"]
  note resolves = getResults_all_or_nothing [OF h, where js = asciiCase
      and cfg = bareConfiguration and linkSections = "[bareSection]" and h = exampleIds
      and tu = exampleTranslationUtils and language = "''en''"]
  from fails [THEN conjunct2, THEN conjunct1, THEN mp, OF c(1), THEN mp, OF c(2)]
  have rejected: "fst (getResults asciiCase failingConfiguration exampleTranslationUtils ''en''
      (Some ''wifi'')) = Rejected ''unavailable''" .
  from resolves [THEN conjunct2, THEN conjunct2, THEN mp, OF c(3), THEN mp, OF c(4)]
  obtain order cats where
    r: "fst (getResults asciiCase bareConfiguration exampleTranslationUtils ''en'' (Some ''wifi'')) =
         Resolved
           [external_links (getTranslations exampleTranslationUtils ''en'') \<mapsto>
              concat (map (linksPushedFor asciiCase exampleTranslationUtils ''en''
                             (toUpperCase asciiCase ''wifi'')) order),
            useful_links (getTranslations exampleTranslationUtils ''en'') \<mapsto> cats]"
    and m: "mset order = mset (forestSections [bareSection])"
    and s: "list_all2 (\<lambda>r s. \<exists>i. r =
               \<lparr>description = see_related_links (getTranslations exampleTranslationUtils ''en''),
                data = IdData i, icon = SectionIcon (section_icon s),
                matchedTerms = [toUpperCase asciiCase (sectionName exampleTranslationUtils ''en'' s)],
                title = sectionName exampleTranslationUtils ''en'' s\<rparr>)
             cats
             (filter (\<lambda>s. sublist (toUpperCase asciiCase ''wifi'')
                         (toUpperCase asciiCase (sectionName exampleTranslationUtils ''en'' s))) order)"
    by blast
  from m have order: "order = [bareSection]"
    by (cases order) (auto simp: forestSections_def bareSection_def)
  have "\<not> 0 \<le> indexOf (toUpperCase asciiCase (sectionName exampleTranslationUtils ''en'' bareSection))
      (toUpperCase asciiCase ''wifi'')"
    by (simp add: example_defs bareSection_def)
  then have "\<not> sublist (toUpperCase asciiCase ''wifi'')
      (toUpperCase asciiCase (sectionName exampleTranslationUtils ''en'' bareSection))"
    unfolding indexOf_nonneg_iff .
  with s order have cats: "cats = []"
    by simp
  have pushed: "linksPushedFor asciiCase exampleTranslationUtils ''en''
      (toUpperCase asciiCase ''wifi'') bareSection = []"
    by (simp add: linksPushedFor_def example_defs bareSection_def)
  have t: "getTranslations exampleTranslationUtils ''en'' = exampleTranslations"
    by (simp add: exampleTranslationUtils_def)
  from r have "fst (getResults asciiCase bareConfiguration exampleTranslationUtils ''en''
      (Some ''wifi'')) = Resolved [''External links'' \<mapsto> [], ''Useful links'' \<mapsto> []]"
    by (simp add: order cats pushed t exampleTranslations_def)
  with rejected show ?thesis by simp
qed

end
